theory Spec2Isabelle
  imports Main "HOL-Library.Word" "HOL-Library.Sublist"
begin

unbundle bit_operations_syntax

section \<open>Bytes, strings and errors\<close>

type_synonym byte = "8 word"

text \<open>A Go string is an immutable sequence of bytes; the model keeps it as the byte list.\<close>

type_synonym gostring = "byte list"

text \<open>
  Everything that can stop a call: the I/O errors the readers return, the errors the
  entry-point parser builds with \<open>fmt.Errorf\<close>, the scanner's \<open>errors.New\<close>, and a
  run-time panic (index out of range), which is not a returned error: no function here
  recovers from it, so it ends the call and every caller's.
\<close>

datatype error =
    EOF
  | ErrUnexpectedEOF
  | TooFewBytes
  | UnrecognizedMagic
  | ShortEntryPoint
  | LengthMismatch
  | IncorrectDMIMagic
  | InvalidChecksum byte byte
  | NoEntryPointFound
  | NegativePosition
  | PanicIndexOutOfRange

section \<open>Entry points (ParseEntryPoint, parse32, parse64, checksum)\<close>

definition magic32 :: "byte list" where
  "magic32 = [0x5F, 0x53, 0x4D, 0x5F]"

definition magic64 :: "byte list" where
  "magic64 = [0x5F, 0x53, 0x4D, 0x33, 0x5F]"

definition magicDMI :: "byte list" where
  "magicDMI = [0x5F, 0x44, 0x4D, 0x49, 0x5F]"

text \<open>\<open>binary.LittleEndian.Uint16\<close>, \<open>Uint32\<close> and \<open>Uint64\<close> on a slice of the right length.\<close>

definition Uint16 :: "byte list \<Rightarrow> 16 word" where
  "Uint16 b = ucast (b ! 0) OR push_bit 8 (ucast (b ! 1))"

definition Uint32 :: "byte list \<Rightarrow> 32 word" where
  "Uint32 b = ucast (b ! 0) OR push_bit 8 (ucast (b ! 1)) OR push_bit 16 (ucast (b ! 2))
     OR push_bit 24 (ucast (b ! 3))"

definition Uint64 :: "byte list \<Rightarrow> 64 word" where
  "Uint64 b = ucast (b ! 0) OR push_bit 8 (ucast (b ! 1)) OR push_bit 16 (ucast (b ! 2))
     OR push_bit 24 (ucast (b ! 3)) OR push_bit 32 (ucast (b ! 4)) OR push_bit 40 (ucast (b ! 5))
     OR push_bit 48 (ucast (b ! 6)) OR push_bit 56 (ucast (b ! 7))"

text \<open>Go's \<open>b[i:j]\<close> for \<open>i \<le> j \<le> len(b)\<close>.\<close>

definition slice :: "'a list \<Rightarrow> nat \<Rightarrow> nat \<Rightarrow> 'a list" where
  "slice b i j = take (j - i) (drop i b)"

record EntryPoint32Bit =
  Anchor :: gostring
  Checksum :: byte
  Length :: byte
  Major :: byte
  Minor :: byte
  MaxStructureSize :: "16 word"
  EntryPointRevision :: byte
  FormattedArea :: "byte list"
  IntermediateAnchor :: gostring
  IntermediateChecksum :: byte
  StructureTableLength :: "16 word"
  StructureTableAddress :: "32 word"
  NumberStructures :: "16 word"
  BCDRevision :: byte

record EntryPoint64Bit =
  Anchor :: gostring
  Checksum :: byte
  Length :: byte
  Major :: byte
  Minor :: byte
  Revision :: byte
  EntryPointRevision :: byte
  Reserved :: byte
  StructureTableMaxSize :: "32 word"
  StructureTableAddress :: "64 word"

datatype EntryPoint = EP32 EntryPoint32Bit | EP64 EntryPoint64Bit

text \<open>
  The loop of \<open>checksum\<close>: \<open>i\<close> is the index of the head of the remaining bytes; the byte
  at \<open>chkIndex\<close> is skipped.
\<close>

fun checksum_loop :: "byte \<Rightarrow> nat \<Rightarrow> nat \<Rightarrow> byte list \<Rightarrow> byte" where
  "checksum_loop chk chkIndex i [] = chk"
| "checksum_loop chk chkIndex i (x # xs) =
     checksum_loop (if i = chkIndex then chk else chk + x) chkIndex (Suc i) xs"

text \<open>\<open>checksum\<close> returns an error or nil: \<open>Some e\<close> is the error.\<close>

definition checksum :: "byte \<Rightarrow> nat \<Rightarrow> byte list \<Rightarrow> error option" where
  "checksum start chkIndex b =
     (let chk = checksum_loop start chkIndex 0 b
      in if chk \<noteq> 0 then Some (InvalidChecksum chk start) else None)"

definition parse32 :: "byte list \<Rightarrow> error + EntryPoint32Bit" where
  "parse32 b =
     (let l = length b in
      if l < 31 then Inl ShortEntryPoint
      else let length' = b ! 5 in
      if l \<noteq> unat length' then Inl LengthMismatch
      else let iAnchor = slice b 16 21 in
      if iAnchor \<noteq> magicDMI then Inl IncorrectDMIMagic
      else let epChk = b ! 4 in
      case checksum epChk 4 b of
        Some e \<Rightarrow> Inl e
      | None \<Rightarrow> Inr \<lparr>
          EntryPoint32Bit.Anchor = slice b 0 4,
          EntryPoint32Bit.Checksum = epChk,
          EntryPoint32Bit.Length = length',
          EntryPoint32Bit.Major = b ! 6,
          EntryPoint32Bit.Minor = b ! 7,
          EntryPoint32Bit.MaxStructureSize = Uint16 (slice b 8 10),
          EntryPoint32Bit.EntryPointRevision = b ! 10,
          EntryPoint32Bit.FormattedArea = slice b 10 15,
          EntryPoint32Bit.IntermediateAnchor = iAnchor,
          EntryPoint32Bit.IntermediateChecksum = b ! 21,
          EntryPoint32Bit.StructureTableLength = Uint16 (slice b 22 24),
          EntryPoint32Bit.StructureTableAddress = Uint32 (slice b 24 28),
          EntryPoint32Bit.NumberStructures = Uint16 (slice b 28 30),
          EntryPoint32Bit.BCDRevision = b ! 30 \<rparr>)"

definition parse64 :: "byte list \<Rightarrow> error + EntryPoint64Bit" where
  "parse64 b =
     (let l = length b in
      if l < 24 then Inl ShortEntryPoint
      else let length' = b ! 6 in
      if l \<noteq> unat length' then Inl LengthMismatch
      else let chk = b ! 5 in
      case checksum chk 5 b of
        Some e \<Rightarrow> Inl e
      | None \<Rightarrow> Inr \<lparr>
          EntryPoint64Bit.Anchor = slice b 0 5,
          EntryPoint64Bit.Checksum = chk,
          EntryPoint64Bit.Length = length',
          EntryPoint64Bit.Major = b ! 7,
          EntryPoint64Bit.Minor = b ! 8,
          EntryPoint64Bit.Revision = b ! 9,
          EntryPoint64Bit.EntryPointRevision = b ! 10,
          EntryPoint64Bit.Reserved = b ! 11,
          EntryPoint64Bit.StructureTableMaxSize = Uint32 (slice b 12 16),
          EntryPoint64Bit.StructureTableAddress = Uint64 (slice b 16 24) \<rparr>)"

text \<open>
  \<open>ParseEntryPoint\<close> on a reader that delivers the bytes \<open>r\<close>: \<open>io.LimitReader(r, 64)\<close>
  and \<open>ioutil.ReadAll\<close> give the first 64 bytes, or all of them when there are fewer.
\<close>

definition ParseEntryPoint :: "byte list \<Rightarrow> error + EntryPoint" where
  "ParseEntryPoint r =
     (let b = take 64 r in
      if length b < 4 then Inl TooFewBytes
      else if prefix magic32 b then map_sum id EP32 (parse32 b)
      else if prefix magic64 b then map_sum id EP64 (parse64 b)
      else Inl UnrecognizedMagic)"

text \<open>The structural checks that come before the checksum, for either variant.\<close>

definition checks_before_checksum :: "byte list \<Rightarrow> bool" where
  "checks_before_checksum b \<longleftrightarrow>
     (prefix magic32 b \<and> 31 \<le> length b \<and> length b = unat (b ! 5) \<and> slice b 16 21 = magicDMI)
   \<or> (prefix magic64 b \<and> 24 \<le> length b \<and> length b = unat (b ! 6))"

text \<open>The two well-formed entry points of the repository's \<open>TestParseEntryPoint\<close>.\<close>

definition sample64 :: "byte list" where
  "sample64 = [0x5F, 0x53, 0x4D, 0x33, 0x5F, 0x86, 0x18, 0x03, 0x00, 0x00, 0x01, 0x00,
     0x53, 0x09, 0x00, 0x00, 0xB0, 0xB3, 0x0E, 0x00, 0x00, 0x00, 0x00, 0x00]"

definition sample32 :: "byte list" where
  "sample32 = [0x5F, 0x53, 0x4D, 0x5F, 0xA4, 0x1F, 0x02, 0x08, 0xD4, 0x01, 0x00,
     0x00, 0x00, 0x00, 0x00, 0x00, 0x5F, 0x44, 0x4D, 0x49, 0x5F, 0x95, 0x5F, 0x0F,
     0x00, 0x90, 0xF0, 0x7A, 0x43, 0x00, 0x28]"

section \<open>Readers\<close>

text \<open>
  A reader over in-memory or file bytes is the list of bytes not yet read.
  \<open>io.ReadFull\<close> into a buffer of \<open>n\<close> bytes: \<open>EOF\<close> when nothing is left,
  \<open>ErrUnexpectedEOF\<close> when some but fewer than \<open>n\<close> bytes are left.
\<close>

definition ReadFull :: "byte list \<Rightarrow> nat \<Rightarrow> error + (byte list \<times> byte list)" where
  "ReadFull r n =
     (if n \<le> length r then Inr (take n r, drop n r)
      else Inl (if r = [] then EOF else ErrUnexpectedEOF))"

section \<open>The memory scanner (findEntryPoint)\<close>

text \<open>
  The declaration of \<open>magicPrefix\<close> is not among the sources; \<open>findEntryPoint\<close> takes it
  as a parameter here. The comment at its use says that both anchors share it, which is
  the three bytes of \<open>magicPrefix_SM\<close>.
\<close>

definition magicPrefix_SM :: "byte list" where
  "magicPrefix_SM = [0x5F, 0x53, 0x4D]"

text \<open>
  The loop of \<open>findEntryPoint\<close>: \<open>r\<close> is the reader after the bytes read so far,
  \<open>addr\<close> the loop variable. Go's \<open>int\<close> is taken as unbounded: no source holds the
  \<open>2^63\<close> bytes a wrap-around of \<open>addr\<close> would need.
\<close>

function findEntryPoint_loop :: "byte list \<Rightarrow> byte list \<Rightarrow> int \<Rightarrow> int \<Rightarrow> error + int" where
  "findEntryPoint_loop magicPrefix r addr end' =
     (if addr < end' then
        (case ReadFull r 16 of
           Inl e \<Rightarrow> Inl e
         | Inr (b, r') \<Rightarrow>
             if prefix magicPrefix b then Inr addr
             else findEntryPoint_loop magicPrefix r' (addr + 16) end')
      else Inl NoEntryPointFound)"
  by pat_completeness auto
termination
  by (relation "measure (\<lambda>(mp, r, addr, e). nat (e - addr))") auto

declare findEntryPoint_loop.simps [simp del]

text \<open>
  \<open>rs\<close> is the whole content of the \<open>io.ReadSeeker\<close>. Seeking to a negative offset
  fails; seeking past the end succeeds and the next read reports \<open>EOF\<close>.
\<close>

definition findEntryPoint :: "byte list \<Rightarrow> byte list \<Rightarrow> int \<Rightarrow> int \<Rightarrow> error + int" where
  "findEntryPoint magicPrefix rs start end' =
     (if start < 0 then Inl NegativePosition
      else findEntryPoint_loop magicPrefix (drop (nat start) rs) start end')"

text \<open>
  The words of the claim about the scanner. A paragraph position of the window is
  \<open>start + 16 k\<close> in \<open>[start, end)\<close>; an anchor begins at \<open>a\<close> when the bytes from
  \<open>a\<close> on start with the prefix; the paragraph at \<open>a\<close> is readable when the source holds
  its 16 bytes.
\<close>

definition paragraph_in_window :: "int \<Rightarrow> int \<Rightarrow> int \<Rightarrow> bool" where
  "paragraph_in_window start end' a \<longleftrightarrow> start \<le> a \<and> a < end' \<and> (a - start) mod 16 = 0"

definition anchor_begins :: "byte list \<Rightarrow> byte list \<Rightarrow> int \<Rightarrow> bool" where
  "anchor_begins magicPrefix rs a \<longleftrightarrow> prefix magicPrefix (drop (nat a) rs)"

definition paragraph_readable :: "byte list \<Rightarrow> int \<Rightarrow> bool" where
  "paragraph_readable rs a \<longleftrightarrow> nat a + 16 \<le> length rs"

definition window_paragraphs :: "int \<Rightarrow> int \<Rightarrow> int list" where
  "window_paragraphs start end' =
     map (\<lambda>k. start + 16 * int k) [0 ..< nat ((end' - start + 15) div 16)]"

text \<open>
  The scanner as the claim states it: the first paragraph position of the window at which
  an anchor begins, and the no-entry-point error when there is none.
\<close>

definition scan_as_claimed :: "byte list \<Rightarrow> byte list \<Rightarrow> int \<Rightarrow> int \<Rightarrow> error + int" where
  "scan_as_claimed magicPrefix rs start end' =
     (case find (anchor_begins magicPrefix rs) (window_paragraphs start end') of
        Some a \<Rightarrow> Inr a
      | None \<Rightarrow> Inl NoEntryPointFound)"

text \<open>The scan over a list of positions, with the short reads of the source.\<close>

fun scan_list :: "byte list \<Rightarrow> byte list \<Rightarrow> int list \<Rightarrow> error + int" where
  "scan_list mp rs [] = Inl NoEntryPointFound"
| "scan_list mp rs (a # as) =
     (if \<not> paragraph_readable rs a
      then Inl (if length rs \<le> nat a then EOF else ErrUnexpectedEOF)
      else if anchor_begins mp rs a then Inr a else scan_list mp rs as)"

text \<open>A memory image with the 64-bit entry point in its second paragraph.\<close>

definition memory_with_entry_point :: "byte list" where
  "memory_with_entry_point =
     [0, 0, 0, 0, 0, 0, 0, 0, 0, 0, 0, 0, 0, 0, 0, 0] @ sample64 @ [0, 0, 0, 0, 0, 0, 0, 0]"

section \<open>Structures (structure.go)\<close>

record Header =
  Type :: byte
  Length :: byte
  Handle :: "16 word"

text \<open>
  The projection types that \<open>decoder.go\<close> fills. Their declarations (\<open>BaseboardInfo\<close>,
  \<open>SystemEnclosure\<close>, \<open>Processor\<close>, \<open>PhysicalMemory\<close>, \<open>BIOSInfo\<close>, \<open>MemoryInfoRead\<close>,
  \<open>SMBIOSVersion\<close>, and six fields of \<open>SystemInfo\<close>) are not among the sources; the
  fields and their types are the ones \<open>Decoder.next\<close> assigns. A Go string field is
  absent when it holds its zero value, the empty string; a pointer field is \<open>None\<close>
  when nil.
\<close>

record BaseboardInfo =
  Manufacturer :: gostring
  Product :: gostring
  Version :: gostring
  SerialNumber :: gostring

record SystemEnclosure =
  Type :: byte

record Processor =
  ID :: gostring
  Family :: int
  CoreCount :: int
  Product :: gostring
  ClockSpeedInMHz :: int

record PhysicalMemory =
  Manufacturer :: gostring
  SerialNumber :: gostring
  SizeInBytes :: "64 word"
  TotalWidth :: "64 word"
  DataWidth :: "64 word"

record BIOSInfo =
  Vendor :: gostring
  Version :: gostring
  BiosVersion :: gostring
  ReleaseDate :: gostring

record MemoryInfoRead =
  MemArrayHandle :: "16 word"
  MemErrorInfoHandle :: "16 word"
  TotalWidth :: "16 word"
  DataWidth :: "16 word"
  Size :: "16 word"
  FormFactor :: byte
  DeviceSet :: byte
  DeviceLocator :: byte
  BankLocator :: byte
  MemType :: byte
  TypeDetail :: "16 word"
  Speed :: "16 word"
  Manufacturer :: byte
  SerialNumber :: byte
  AssetTag :: byte
  PartNumber :: byte
  Attribute :: byte
  ExtendedSize :: "32 word"
  ConfiguredMemClockSpeed :: "16 word"
  MinVoltage :: "16 word"
  MaxVoltage :: "16 word"
  ConfiguredVoltage :: "16 word"

record SMBIOSVersion =
  Major :: int
  Minor :: int

record SystemInfo =
  SystemManufacturerRef :: gostring
  SystemProductName :: gostring
  BiosSerial :: gostring
  VirtualMachineUUID :: gostring
  MotherboardAdapter :: gostring
  Memory :: gostring
  ProcessorType :: gostring
  ProcessorID :: gostring
  BaseboardInfo :: "BaseboardInfo option"
  SystemEnclosure :: "SystemEnclosure option"
  Processors :: "Processor list"
  PhyMemory :: "PhysicalMemory list"
  BiosInfo :: "BIOSInfo option"

record Structure =
  Header :: Header
  Formatted :: "byte list"
  Strings :: "gostring list"
  SystemInfo :: SystemInfo

text \<open>The zero values \<open>SystemInfo{}\<close>, \<open>&BaseboardInfo{}\<close>, \<open>&Processor{}\<close> and so on.\<close>

definition SystemInfo_zero :: SystemInfo where
  "SystemInfo_zero = \<lparr>
     SystemManufacturerRef = [], SystemProductName = [], BiosSerial = [],
     VirtualMachineUUID = [], MotherboardAdapter = [], Memory = [], ProcessorType = [],
     ProcessorID = [], BaseboardInfo = None, SystemEnclosure = None, Processors = [],
     PhyMemory = [], BiosInfo = None \<rparr>"

definition BaseboardInfo_zero :: BaseboardInfo where
  "BaseboardInfo_zero = \<lparr> BaseboardInfo.Manufacturer = [], BaseboardInfo.Product = [],
     BaseboardInfo.Version = [], BaseboardInfo.SerialNumber = [] \<rparr>"

definition Processor_zero :: Processor where
  "Processor_zero = \<lparr> ID = [], Family = 0, CoreCount = 0, Processor.Product = [],
     ClockSpeedInMHz = 0 \<rparr>"

definition PhysicalMemory_zero :: PhysicalMemory where
  "PhysicalMemory_zero = \<lparr> PhysicalMemory.Manufacturer = [],
     PhysicalMemory.SerialNumber = [], SizeInBytes = 0, PhysicalMemory.TotalWidth = 0,
     PhysicalMemory.DataWidth = 0 \<rparr>"

definition BIOSInfo_zero :: BIOSInfo where
  "BIOSInfo_zero = \<lparr> Vendor = [], BIOSInfo.Version = [], BiosVersion = [],
     ReleaseDate = [] \<rparr>"

definition MemoryInfoRead_zero :: MemoryInfoRead where
  "MemoryInfoRead_zero = \<lparr>
     MemArrayHandle = 0, MemErrorInfoHandle = 0, MemoryInfoRead.TotalWidth = 0,
     MemoryInfoRead.DataWidth = 0, Size = 0, FormFactor = 0, DeviceSet = 0,
     DeviceLocator = 0, BankLocator = 0, MemType = 0, TypeDetail = 0, Speed = 0,
     MemoryInfoRead.Manufacturer = 0, MemoryInfoRead.SerialNumber = 0, AssetTag = 0,
     PartNumber = 0, Attribute = 0, ExtendedSize = 0, ConfiguredMemClockSpeed = 0,
     MinVoltage = 0, MaxVoltage = 0, ConfiguredVoltage = 0 \<rparr>"

section \<open>The decoder's reader (decoder.go)\<close>

text \<open>
  A \<open>Decoder\<close> holds the buffered reader, here the bytes not yet consumed, and the
  version. The stream is finite, as a file or a buffer in memory is. The scratch buffer
  \<open>b\<close> of 1024 bytes only carries bytes from a read to the copy that follows; a
  formatted section has at most 251 bytes. \<open>NewDecoder\<close> leaves the version at its zero
  value; a caller may set it afterwards.
\<close>

record Decoder =
  br :: "byte list"
  Version :: SMBIOSVersion

definition NewDecoder :: "byte list \<Rightarrow> Decoder" where
  "NewDecoder r = \<lparr> br = r, Decoder.Version = \<lparr> Major = 0, Minor = 0 \<rparr> \<rparr>"

definition headerLen :: nat where
  "headerLen = 4"

definition typeEndOfTable :: byte where
  "typeEndOfTable = 127"

definition null :: "byte list" where
  "null = [0x00]"

definition endStringSet :: "byte list" where
  "endStringSet = [0x00, 0x00]"

text \<open>Sequencing of steps that can stop with an error.\<close>

definition andThen :: "error + 'a \<Rightarrow> ('a \<Rightarrow> error + 'b) \<Rightarrow> error + 'b" where
  "andThen m f = (case m of Inl e \<Rightarrow> Inl e | Inr x \<Rightarrow> f x)"

text \<open>
  \<open>bufio.Reader.Peek(n)\<close> for the small \<open>n\<close> used here: the next \<open>n\<close> bytes without
  consuming them, or the reader's error when fewer are left. \<open>ReadBytes(0x00)\<close>: the
  bytes up to and including the first zero byte, or \<open>EOF\<close> when there is none.
\<close>

definition Peek :: "byte list \<Rightarrow> nat \<Rightarrow> error + byte list" where
  "Peek r n = (if n \<le> length r then Inr (take n r) else Inl EOF)"

definition ReadBytes0 :: "byte list \<Rightarrow> error + (byte list \<times> byte list)" where
  "ReadBytes0 r =
     (case dropWhile (\<lambda>x. x \<noteq> 0) r of
        [] \<Rightarrow> Inl EOF
      | z # rest \<Rightarrow> Inr (takeWhile (\<lambda>x. x \<noteq> 0) r @ [z], rest))"

text \<open>\<open>bytes.TrimRight(raw, "\x00")\<close>.\<close>

definition TrimRight0 :: "byte list \<Rightarrow> byte list" where
  "TrimRight0 raw = rev (dropWhile (\<lambda>x. x = 0) (rev raw))"

definition parseHeader :: "byte list \<Rightarrow> error + (Header \<times> byte list)" where
  "parseHeader r =
     (case ReadFull r headerLen of
        Inl e \<Rightarrow> Inl e
      | Inr (b, r') \<Rightarrow>
          Inr (\<lparr> Header.Type = b ! 0, Header.Length = b ! 1, Handle = Uint16 (slice b 2 4) \<rparr>, r'))"

definition parseFormatted :: "byte list \<Rightarrow> int \<Rightarrow> error + (byte list \<times> byte list)" where
  "parseFormatted r l =
     (if l < 0 then Inl ErrUnexpectedEOF
      else if l = 0 then Inr ([], r)
      else ReadFull r (nat l))"

definition parseString :: "byte list \<Rightarrow> error + ((gostring \<times> bool) \<times> byte list)" where
  "parseString r =
     (case ReadBytes0 r of
        Inl e \<Rightarrow> Inl e
      | Inr (raw, r1) \<Rightarrow>
          let b = TrimRight0 raw in
          (case Peek r1 1 of
             Inl e \<Rightarrow> Inl e
           | Inr peek \<Rightarrow>
               if peek \<noteq> null then Inr ((b, True), r1)
               else Inr ((b, False), drop 1 r1)))"

lemma ReadBytes0_shorter: "ReadBytes0 r = Inr (raw, r') \<Longrightarrow> length r' < length r"
proof -
  assume a: "ReadBytes0 r = Inr (raw, r')"
  then obtain z where "dropWhile (\<lambda>x. x \<noteq> 0) r = z # r'"
    by (auto simp: ReadBytes0_def split: list.splits)
  then have "length (dropWhile (\<lambda>x. x \<noteq> 0) r) = Suc (length r')" by simp
  moreover have "length (dropWhile (\<lambda>x. x \<noteq> 0) r) \<le> length r"
    by (rule length_dropWhile_le)
  ultimately show ?thesis by simp
qed

lemma parseString_shorter:
  "parseString r = Inr ((s, more'), r') \<Longrightarrow> length r' < length r"
  by (auto simp: parseString_def Let_def Peek_def split: sum.splits if_splits
      dest!: ReadBytes0_shorter)

function parseStrings_loop :: "gostring list \<Rightarrow> byte list \<Rightarrow> error + (gostring list \<times> byte list)" where
  "parseStrings_loop ss r =
     (case parseString r of
        Inl e \<Rightarrow> Inl e
      | Inr ((s, more'), r') \<Rightarrow>
          if \<not> more' then Inr (ss @ [s], r') else parseStrings_loop (ss @ [s]) r')"
  by pat_completeness auto
termination
  by (relation "measure (\<lambda>(ss, r). length r)") (auto dest: parseString_shorter)

declare parseStrings_loop.simps [simp del]

definition parseStrings :: "byte list \<Rightarrow> error + (gostring list \<times> byte list)" where
  "parseStrings r =
     (case Peek r 2 of
        Inl e \<Rightarrow> Inl e
      | Inr term \<Rightarrow>
          if term = endStringSet then Inr ([], drop 2 r)
          else parseStrings_loop [] r)"

section \<open>Library functions used by the interpreter\<close>

text \<open>
  \<open>fmt.Sprintf\<close> with the verbs \<open>%02X\<close> (a byte), \<open>%04X\<close> (a \<open>uint16\<close>) and \<open>%01X\<close>
  (a byte, at least one digit), and \<open>strconv.Itoa\<close>.
\<close>

definition hexDigit :: "nat \<Rightarrow> byte" where
  "hexDigit n = (if n < 10 then 0x30 + of_nat n else 0x41 + of_nat (n - 10))"

definition hex02X :: "byte \<Rightarrow> gostring" where
  "hex02X b = [hexDigit (unat (drop_bit 4 b)), hexDigit (unat (b AND 0x0F))]"

definition hex04X :: "16 word \<Rightarrow> gostring" where
  "hex04X w = [hexDigit (unat (drop_bit 12 w)), hexDigit (unat (drop_bit 8 w AND 0x0F)),
     hexDigit (unat (drop_bit 4 w AND 0x0F)), hexDigit (unat (w AND 0x0F))]"

definition hex01X :: "byte \<Rightarrow> gostring" where
  "hex01X b = (if b < 0x10 then [hexDigit (unat b)] else hex02X b)"

fun decimal :: "nat \<Rightarrow> gostring" where
  "decimal n =
     (if n < 10 then [0x30 + of_nat n] else decimal (n div 10) @ [0x30 + of_nat (n mod 10)])"

declare decimal.simps [simp del]

definition Itoa :: "int \<Rightarrow> gostring" where
  "Itoa i = (if i < 0 then 0x2D # decimal (nat (- i)) else decimal (nat i))"

text \<open>
  \<open>strings.TrimSpace\<close> removes leading and trailing white space as Unicode defines it:
  the six ASCII characters, and in UTF-8 the two-byte U+0085 and U+00A0 and the
  three-byte U+1680, U+2000 to U+200A, U+2028, U+2029, U+202F, U+205F and U+3000.
\<close>

definition asciiSpace :: "byte \<Rightarrow> bool" where
  "asciiSpace c \<longleftrightarrow> c = 0x09 \<or> c = 0x0A \<or> c = 0x0B \<or> c = 0x0C \<or> c = 0x0D \<or> c = 0x20"

definition space2 :: "byte \<Rightarrow> byte \<Rightarrow> bool" where
  "space2 a b \<longleftrightarrow> a = 0xC2 \<and> (b = 0x85 \<or> b = 0xA0)"

definition space3 :: "byte \<Rightarrow> byte \<Rightarrow> byte \<Rightarrow> bool" where
  "space3 a b c \<longleftrightarrow>
     (a = 0xE1 \<and> b = 0x9A \<and> c = 0x80)
   \<or> (a = 0xE2 \<and> b = 0x80 \<and> (0x80 \<le> c \<and> c \<le> 0x8A \<or> c = 0xA8 \<or> c = 0xA9 \<or> c = 0xAF))
   \<or> (a = 0xE2 \<and> b = 0x81 \<and> c = 0x9F)
   \<or> (a = 0xE3 \<and> b = 0x80 \<and> c = 0x80)"

text \<open>The width of the white-space character that starts, or ends, \<open>s\<close>; 0 when none does.\<close>

definition leadingSpace :: "byte list \<Rightarrow> nat" where
  "leadingSpace s =
     (if 1 \<le> length s \<and> asciiSpace (s ! 0) then 1
      else if 2 \<le> length s \<and> space2 (s ! 0) (s ! 1) then 2
      else if 3 \<le> length s \<and> space3 (s ! 0) (s ! 1) (s ! 2) then 3
      else 0)"

definition trailingSpace :: "byte list \<Rightarrow> nat" where
  "trailingSpace s =
     (let n = length s in
      if 1 \<le> n \<and> asciiSpace (s ! (n - 1)) then 1
      else if 2 \<le> n \<and> space2 (s ! (n - 2)) (s ! (n - 1)) then 2
      else if 3 \<le> n \<and> space3 (s ! (n - 3)) (s ! (n - 2)) (s ! (n - 1)) then 3
      else 0)"

lemma leadingSpace_le: "leadingSpace s \<le> length s"
  by (simp add: leadingSpace_def)

lemma trailingSpace_le: "trailingSpace s \<le> length s"
  by (simp add: trailingSpace_def Let_def)

function TrimLeftSpace :: "byte list \<Rightarrow> byte list" where
  "TrimLeftSpace s =
     (if leadingSpace s = 0 then s else TrimLeftSpace (drop (leadingSpace s) s))"
  by pat_completeness auto
termination
proof (relation "measure length")
  show "wf (measure length)" by simp
next
  fix s :: "byte list"
  assume "leadingSpace s \<noteq> 0"
  then show "(drop (leadingSpace s) s, s) \<in> measure length"
    using leadingSpace_le [of s] by simp
qed

function TrimRightSpace :: "byte list \<Rightarrow> byte list" where
  "TrimRightSpace s =
     (if trailingSpace s = 0 then s
      else TrimRightSpace (take (length s - trailingSpace s) s))"
  by pat_completeness auto
termination
proof (relation "measure length")
  show "wf (measure length)" by simp
next
  fix s :: "byte list"
  assume "trailingSpace s \<noteq> 0"
  then show "(take (length s - trailingSpace s) s, s) \<in> measure length"
    using trailingSpace_le [of s] by simp
qed

declare TrimLeftSpace.simps [simp del] TrimRightSpace.simps [simp del]

definition TrimSpace :: "gostring \<Rightarrow> gostring" where
  "TrimSpace s = TrimRightSpace (TrimLeftSpace s)"

section \<open>Slices and struct views\<close>

text \<open>A Go index expression \<open>xs[i]\<close>: a run-time panic when \<open>i\<close> is out of range.\<close>

definition index :: "'a list \<Rightarrow> nat \<Rightarrow> error + 'a" where
  "index xs i = (if i < length xs then Inr (xs ! i) else Inl PanicIndexOutOfRange)"

text \<open>
  \<open>(*T)(unsafe.Pointer(&fb[0]))\<close> lays a struct type over the formatted bytes. Taking
  \<open>&fb[0]\<close> is an index expression and panics on an empty slice. A field of the view is
  the bytes at the field's offset in \<open>T\<close>; the struct types of \<open>structure.go\<close> have no
  padding before or between the fields read here, and a multi-byte field is read in
  the byte order of the host, taken here as little-endian. Nothing compares the offset
  with \<open>len(fb)\<close>: a field at or beyond the end of the block is read from what the
  process holds in memory behind the block, and the call goes on with that value. The
  block is a fresh allocation of \<open>parseFormatted\<close>, and the program does not determine
  what follows it, so those bytes are a parameter of every function that reads through
  a view: \<open>behind i\<close> is the byte at address \<open>&fb[0] + len(fb) + i\<close>.
\<close>

type_synonym memory = "nat \<Rightarrow> byte"

definition addressOfFirst :: "byte list \<Rightarrow> error + unit" where
  "addressOfFirst fb = (if fb = [] then Inl PanicIndexOutOfRange else Inr ())"

definition field8 :: "memory \<Rightarrow> byte list \<Rightarrow> nat \<Rightarrow> byte" where
  "field8 behind fb off = (if off < length fb then fb ! off else behind (off - length fb))"

definition field16 :: "memory \<Rightarrow> byte list \<Rightarrow> nat \<Rightarrow> 16 word" where
  "field16 behind fb off = Uint16 [field8 behind fb off, field8 behind fb (off + 1)]"

definition fieldBytes :: "memory \<Rightarrow> byte list \<Rightarrow> nat \<Rightarrow> nat \<Rightarrow> byte list" where
  "fieldBytes behind fb off n = map (field8 behind fb) [off ..< off + n]"
section \<open>Interpretation of the recognized types (Decoder.next)\<close>

text \<open>
  The body of \<open>next\<close> after the three parse calls is a sequence of blocks, one per
  recognized type. Each block is a definition of its own here (\<open>interpretSystem\<close>,
  \<open>interpretBaseboard\<close>, \<open>interpretEnclosure\<close>, \<open>interpretProcessor\<close>,
  \<open>interpretMemory\<close>, \<open>interpretBIOS\<close>), and \<open>interpretStructure\<close> runs them in the
  order of the source. A block takes the formatted bytes, the strings and the
  \<open>SystemInfo\<close> built so far and returns what it assigns; the blocks that read through
  a struct view also take the memory behind the formatted block. The only way a block
  stops is a panic: at \<open>&fb[0]\<close>, or at an index into the strings or the block.
\<close>

definition extendedSizeThreyshold :: "16 word" where
  "extendedSizeThreyshold = 32767"

definition mbToByteConvRatio :: "64 word" where
  "mbToByteConvRatio = 1048576"

definition kbToByteConvRatio :: "64 word" where
  "kbToByteConvRatio = 1024"

definition sizeAsPer2_1 :: nat where
  "sizeAsPer2_1 = 17"

definition sizeAsPer2_3 :: nat where
  "sizeAsPer2_3 = 23"

definition sizeAsPer2_6 :: nat where
  "sizeAsPer2_6 = 24"

definition sizeAsPer2_7 :: nat where
  "sizeAsPer2_7 = 30"

definition sizeAsPer2_8 :: nat where
  "sizeAsPer2_8 = 36"

subsection \<open>Type 1: system information\<close>

text \<open>
  \<open>SMBIOSSystemInfo\<close>: \<open>Manufacturer\<close> at offset 0, \<open>ProductName\<close> at 1, \<open>Version\<close> at 2,
  \<open>SN\<close> at 3, \<open>UUID\<close> at 4 to 19. The loop over the UUID runs while \<open>i < 16\<close> and
  one of the two flags is still set; \<open>n\<close> counts the iterations left.
\<close>

fun uuidScan :: "memory \<Rightarrow> byte list \<Rightarrow> nat \<Rightarrow> nat \<Rightarrow> bool \<Rightarrow> bool \<Rightarrow> bool \<times> bool" where
  "uuidScan behind fb 0 i only0x00 only0xFF = (only0x00, only0xFF)"
| "uuidScan behind fb (Suc n) i only0x00 only0xFF =
     (if only0x00 \<or> only0xFF then
        let u = field8 behind fb (4 + i) in
        uuidScan behind fb n (Suc i) (only0x00 \<and> u = 0x00) (only0xFF \<and> u = 0xFF)
      else (only0x00, only0xFF))"

definition formatUUID :: "byte list \<Rightarrow> gostring" where
  "formatUUID u =
     hex02X (u ! 3) @ hex02X (u ! 2) @ hex02X (u ! 1) @ hex02X (u ! 0) @ [0x2D]
     @ hex02X (u ! 5) @ hex02X (u ! 4) @ [0x2D]
     @ hex02X (u ! 7) @ hex02X (u ! 6) @ [0x2D]
     @ hex02X (u ! 8) @ hex02X (u ! 9) @ [0x2D]
     @ hex02X (u ! 10) @ hex02X (u ! 11) @ hex02X (u ! 12) @ hex02X (u ! 13)
     @ hex02X (u ! 14) @ hex02X (u ! 15)"

text \<open>The block \<open>if h.Length > 8\<close>: the strings and the \<open>SystemInfo\<close> after it.\<close>

definition systemUUIDStep ::
  "memory \<Rightarrow> Header \<Rightarrow> byte list \<Rightarrow> gostring list \<Rightarrow> SystemInfo \<Rightarrow> gostring list \<times> SystemInfo" where
  "systemUUIDStep behind h fb ss systemInfo =
     (if Header.Length h > 8 then
        let (only0x00, only0xFF) = uuidScan behind fb 16 0 True True in
        if \<not> only0xFF \<and> \<not> only0x00 then
          let strUUID = formatUUID (fieldBytes behind fb 4 16) in
          (ss @ [strUUID], systemInfo\<lparr>VirtualMachineUUID := strUUID\<rparr>)
        else (ss, systemInfo)
      else (ss, systemInfo))"

definition interpretSystem ::
  "memory \<Rightarrow> Header \<Rightarrow> byte list \<Rightarrow> gostring list \<Rightarrow> SystemInfo
     \<Rightarrow> error + (gostring list \<times> SystemInfo)" where
  "interpretSystem behind h fb ss systemInfo =
     andThen (addressOfFirst fb) (\<lambda>_.
     let (ss, systemInfo) = systemUUIDStep behind h fb ss systemInfo;
         productName = field8 behind fb 1 in
     andThen
       (if productName > 0 then
          andThen (index ss (unat (productName - 1))) (\<lambda>s.
            Inr (systemInfo\<lparr>SystemManufacturerRef := s\<rparr>))
        else Inr systemInfo)
       (\<lambda>systemInfo.
     let manufacturer = field8 behind fb 0 in
     andThen
       (if manufacturer > 0 then
          andThen (index ss (unat (manufacturer - 1))) (\<lambda>s.
            Inr (systemInfo\<lparr>SystemProductName := s\<rparr>))
        else Inr systemInfo)
       (\<lambda>systemInfo.
     let sn = field8 behind fb 3 in
     andThen
       (if sn > 0 then
          andThen (index ss (unat (sn - 1))) (\<lambda>s. Inr (systemInfo\<lparr>BiosSerial := s\<rparr>))
        else Inr systemInfo)
       (\<lambda>systemInfo. Inr (ss, systemInfo)))))"

subsection \<open>Type 2: baseboard\<close>

text \<open>
  \<open>SMBIOSBaseboardInfo\<close>: \<open>Manufacturer\<close> at offset 0, \<open>Product\<close> at 1, \<open>Version\<close> at 2,
  \<open>SerialNumber\<close> at 3. \<open>byte(len(ss))\<close> keeps the low eight bits of the length.
\<close>

definition interpretBaseboard ::
  "memory \<Rightarrow> byte list \<Rightarrow> gostring list \<Rightarrow> SystemInfo \<Rightarrow> error + SystemInfo" where
  "interpretBaseboard behind fb ss systemInfo =
     andThen (addressOfFirst fb) (\<lambda>_.
     let bbInfo = BaseboardInfo_zero;
         valArrSize = (of_nat (length ss) :: byte);
         manufacturer = field8 behind fb 0 in
     andThen
       (if manufacturer > 0 \<and> manufacturer \<le> valArrSize then
          andThen (index ss (unat (manufacturer - 1))) (\<lambda>s.
            Inr (bbInfo\<lparr>BaseboardInfo.Manufacturer := s\<rparr>))
        else Inr bbInfo)
       (\<lambda>bbInfo.
     let product = field8 behind fb 1 in
     andThen
       (if product > 0 \<and> product \<le> valArrSize then
          andThen (index ss (unat (product - 1))) (\<lambda>s.
            Inr (bbInfo\<lparr>BaseboardInfo.Product := s\<rparr>))
        else Inr bbInfo)
       (\<lambda>bbInfo.
     let version = field8 behind fb 2 in
     andThen
       (if version > 0 \<and> version \<le> valArrSize then
          andThen (index ss (unat (version - 1))) (\<lambda>s.
            Inr (bbInfo\<lparr>BaseboardInfo.Version := s\<rparr>))
        else Inr bbInfo)
       (\<lambda>bbInfo.
     let serialNumber = field8 behind fb 3 in
     andThen
       (if serialNumber > 0 \<and> serialNumber \<le> valArrSize then
          andThen (index ss (unat (serialNumber - 1))) (\<lambda>val.
            Inr (bbInfo\<lparr>BaseboardInfo.SerialNumber := val\<rparr>,
                 systemInfo\<lparr>MotherboardAdapter := val\<rparr>))
        else Inr (bbInfo, systemInfo))
       (\<lambda>(bbInfo, systemInfo).
     Inr (systemInfo\<lparr>BaseboardInfo := Some bbInfo\<rparr>))))))"

subsection \<open>Type 3: system enclosure\<close>

text \<open>
  Modelled from the spec: the declaration of the struct \<open>SystemEnclosure\<close> is not among
  the sources. The spec puts the chassis type in the formatted byte at offset 0.
\<close>

definition SystemEnclosure_Type_offset :: nat where
  "SystemEnclosure_Type_offset = 0"

definition interpretEnclosure :: "memory \<Rightarrow> byte list \<Rightarrow> SystemInfo \<Rightarrow> error + SystemInfo" where
  "interpretEnclosure behind fb systemInfo =
     andThen (addressOfFirst fb) (\<lambda>_.
     let t = field8 behind fb SystemEnclosure_Type_offset in
     Inr (systemInfo\<lparr>SystemEnclosure := Some \<lparr> SystemEnclosure.Type = t AND 0x7F \<rparr>\<rparr>))"

subsection \<open>Type 4: processor\<close>

text \<open>
  \<open>SMBIOSProcessorType\<close>: \<open>ProcessorType\<close> at offset 1, \<open>ProcessorFamily\<close> at 2,
  \<open>ProcessorManufacturer\<close> at 3, \<open>ProcessorID\<close> (four \<open>uint16\<close>) at 4 to 11,
  \<open>CurrentSpeed\<close> (\<open>uint16\<close>) at 18, \<open>CoreCount\<close> at 31, \<open>CoreCount2\<close> (\<open>uint16\<close>) at 38.
  The first loop stops at the first non-zero word of the processor ID; \<open>n\<close> counts
  the iterations left.
\<close>

fun processorIDScan :: "memory \<Rightarrow> byte list \<Rightarrow> nat \<Rightarrow> nat \<Rightarrow> bool" where
  "processorIDScan behind fb 0 i = False"
| "processorIDScan behind fb (Suc n) i =
     (if field16 behind fb (4 + 2 * i) > 0 then True
      else processorIDScan behind fb n (Suc i))"

text \<open>The statements of the processor block, one definition each, in source order.\<close>

definition processorIDStep ::
  "memory \<Rightarrow> byte list \<Rightarrow> Processor \<Rightarrow> SystemInfo \<Rightarrow> Processor \<times> SystemInfo" where
  "processorIDStep behind fb processor systemInfo =
     (let isValidProcessorID = processorIDScan behind fb 4 0 in
      if isValidProcessorID then
        let cpuID = hex04X (field16 behind fb 10) @ hex04X (field16 behind fb 8)
                    @ hex04X (field16 behind fb 6) @ hex04X (field16 behind fb 4) in
        (processor\<lparr>ID := cpuID\<rparr>, systemInfo\<lparr>ProcessorID := cpuID\<rparr>)
      else (processor, systemInfo))"

definition processorTypeStep :: "memory \<Rightarrow> byte list \<Rightarrow> SystemInfo \<Rightarrow> SystemInfo" where
  "processorTypeStep behind fb systemInfo =
     (let processorType = field8 behind fb 1 in
      if processorType > 0 then systemInfo\<lparr>ProcessorType := hex01X processorType\<rparr>
      else systemInfo)"

definition processorFamilyStep :: "memory \<Rightarrow> byte list \<Rightarrow> Processor \<Rightarrow> Processor" where
  "processorFamilyStep behind fb processor =
     (let processorFamily = field8 behind fb 2 in
      if processorFamily > 0 then processor\<lparr>Family := uint processorFamily\<rparr>
      else processor)"

definition coreCountStep ::
  "memory \<Rightarrow> SMBIOSVersion \<Rightarrow> byte list \<Rightarrow> Processor \<Rightarrow> Processor" where
  "coreCountStep behind version fb processor =
     (if Major version \<ge> 3 \<or> Minor version < 5 \<or> Minor version > 9 then
        let coreCount2 = field16 behind fb 38 in
        if coreCount2 > 0 then processor\<lparr>CoreCount := uint coreCount2\<rparr> else processor
      else
        let coreCount = field8 behind fb 31 in
        if coreCount > 0 then processor\<lparr>CoreCount := uint coreCount\<rparr> else processor)"

definition processorProductStep ::
  "memory \<Rightarrow> byte list \<Rightarrow> gostring list \<Rightarrow> Processor \<Rightarrow> error + Processor" where
  "processorProductStep behind fb ss processor =
     (let valArrSize = (of_nat (length ss) :: byte);
          processorManufacturer = field8 behind fb 3 in
      if processorManufacturer > 0 \<and> processorManufacturer < valArrSize then
        andThen (index ss (unat processorManufacturer)) (\<lambda>s.
          Inr (processor\<lparr>Processor.Product := TrimSpace s\<rparr>))
      else Inr processor)"

definition currentSpeedStep :: "memory \<Rightarrow> byte list \<Rightarrow> Processor \<Rightarrow> Processor" where
  "currentSpeedStep behind fb processor =
     (let currentSpeed = field16 behind fb 18 in
      if currentSpeed > 0 then processor\<lparr>ClockSpeedInMHz := uint currentSpeed\<rparr>
      else processor)"

definition interpretProcessor ::
  "memory \<Rightarrow> SMBIOSVersion \<Rightarrow> byte list \<Rightarrow> gostring list \<Rightarrow> SystemInfo
     \<Rightarrow> error + SystemInfo" where
  "interpretProcessor behind version fb ss systemInfo =
     andThen (addressOfFirst fb) (\<lambda>_.
     let (processor, systemInfo) = processorIDStep behind fb Processor_zero systemInfo;
         systemInfo = processorTypeStep behind fb systemInfo;
         processor = processorFamilyStep behind fb processor;
         processor = coreCountStep behind version fb processor in
     andThen (processorProductStep behind fb ss processor) (\<lambda>processor.
     let processor = currentSpeedStep behind fb processor in
     Inr (systemInfo\<lparr>Processors := Processors systemInfo @ [processor]\<rparr>)))"

subsection \<open>Type 17: memory device\<close>

text \<open>The five blocks of \<open>MemoryInfoRead\<close>, each behind its length check.\<close>

definition readMemoryInfo :: "byte list \<Rightarrow> MemoryInfoRead" where
  "readMemoryInfo fb =
     (let fbLen = length fb;
          memInfo = MemoryInfoRead_zero;
          memInfo =
            (if fbLen \<ge> sizeAsPer2_1 then memInfo\<lparr>
               MemArrayHandle := Uint16 (slice fb 0 2),
               MemErrorInfoHandle := Uint16 (slice fb 2 4),
               MemoryInfoRead.TotalWidth := Uint16 (slice fb 4 6),
               MemoryInfoRead.DataWidth := Uint16 (slice fb 6 8),
               Size := Uint16 (slice fb 8 10),
               FormFactor := fb ! 10,
               DeviceSet := fb ! 11,
               DeviceLocator := fb ! 12,
               BankLocator := fb ! 13,
               MemType := fb ! 14,
               TypeDetail := Uint16 (slice fb 15 17)\<rparr>
             else memInfo);
          memInfo =
            (if fbLen \<ge> sizeAsPer2_3 then memInfo\<lparr>
               Speed := Uint16 (slice fb 17 19),
               MemoryInfoRead.Manufacturer := fb ! 19,
               MemoryInfoRead.SerialNumber := fb ! 20,
               AssetTag := fb ! 21,
               PartNumber := fb ! 22\<rparr>
             else memInfo);
          memInfo =
            (if fbLen \<ge> sizeAsPer2_6 then memInfo\<lparr>Attribute := fb ! 23\<rparr> else memInfo);
          memInfo =
            (if fbLen \<ge> sizeAsPer2_7 then memInfo\<lparr>
               ExtendedSize := Uint32 (slice fb 24 28),
               ConfiguredMemClockSpeed := Uint16 (slice fb 28 30)\<rparr>
             else memInfo);
          memInfo =
            (if fbLen \<ge> sizeAsPer2_8 then memInfo\<lparr>
               MinVoltage := Uint16 (slice fb 30 32),
               MaxVoltage := Uint16 (slice fb 32 34),
               ConfiguredVoltage := Uint16 (slice fb 34 36)\<rparr>
             else memInfo)
      in memInfo)"

text \<open>The statements of the memory-device block after the reads, in source order.\<close>

definition memoryManufacturerStep ::
  "gostring list \<Rightarrow> MemoryInfoRead \<Rightarrow> PhysicalMemory \<Rightarrow> error + PhysicalMemory" where
  "memoryManufacturerStep ss memInfo physicalMemory =
     (let arrSize = (of_nat (length ss) :: byte) in
      if MemoryInfoRead.Manufacturer memInfo > 0
         \<and> MemoryInfoRead.Manufacturer memInfo \<le> arrSize then
        andThen (index ss (unat (MemoryInfoRead.Manufacturer memInfo - 1))) (\<lambda>s.
          Inr (physicalMemory\<lparr>PhysicalMemory.Manufacturer := s\<rparr>))
      else Inr physicalMemory)"

definition memorySerialStep ::
  "gostring list \<Rightarrow> MemoryInfoRead \<Rightarrow> PhysicalMemory \<Rightarrow> SystemInfo
     \<Rightarrow> error + (PhysicalMemory \<times> SystemInfo)" where
  "memorySerialStep ss memInfo physicalMemory systemInfo =
     (let arrSize = (of_nat (length ss) :: byte) in
      if MemoryInfoRead.SerialNumber memInfo > 0
         \<and> MemoryInfoRead.SerialNumber memInfo \<le> arrSize then
        andThen (index ss (unat (MemoryInfoRead.SerialNumber memInfo - 1))) (\<lambda>memSerNo.
          Inr (physicalMemory\<lparr>PhysicalMemory.SerialNumber := memSerNo\<rparr>,
               systemInfo\<lparr>Memory := memSerNo\<rparr>))
      else Inr (physicalMemory, systemInfo))"

definition memorySizeStep ::
  "byte list \<Rightarrow> MemoryInfoRead \<Rightarrow> PhysicalMemory \<Rightarrow> error + PhysicalMemory" where
  "memorySizeStep fb memInfo physicalMemory =
     (let fbLen = length fb;
          memSize = (ucast (Size memInfo) :: 64 word);
          memSize =
            (if Size memInfo = extendedSizeThreyshold \<and> fbLen \<ge> sizeAsPer2_7
             then ucast (ExtendedSize memInfo) else memSize);
          memSizeInByte = memSize * kbToByteConvRatio in
      andThen (index fb 9) (\<lambda>fb9.
        let memSizeInByte =
              (if fb9 AND 0x80 = 0 then memSize * mbToByteConvRatio else memSizeInByte) in
        Inr (physicalMemory\<lparr>SizeInBytes := memSizeInByte\<rparr>)))"

definition memoryWidthStep :: "MemoryInfoRead \<Rightarrow> PhysicalMemory \<Rightarrow> PhysicalMemory" where
  "memoryWidthStep memInfo physicalMemory =
     (let physicalMemory =
            (if MemoryInfoRead.TotalWidth memInfo > 0
             then physicalMemory\<lparr>PhysicalMemory.TotalWidth :=
                    ucast (MemoryInfoRead.TotalWidth memInfo)\<rparr>
             else physicalMemory);
          physicalMemory =
            (if MemoryInfoRead.DataWidth memInfo > 0
             then physicalMemory\<lparr>PhysicalMemory.DataWidth :=
                    ucast (MemoryInfoRead.DataWidth memInfo)\<rparr>
             else physicalMemory)
      in physicalMemory)"

definition interpretMemory ::
  "byte list \<Rightarrow> gostring list \<Rightarrow> SystemInfo \<Rightarrow> error + SystemInfo" where
  "interpretMemory fb ss systemInfo =
     (let memInfo = readMemoryInfo fb in
      andThen (memoryManufacturerStep ss memInfo PhysicalMemory_zero) (\<lambda>physicalMemory.
      andThen (memorySerialStep ss memInfo physicalMemory systemInfo)
        (\<lambda>(physicalMemory, systemInfo).
      andThen (memorySizeStep fb memInfo physicalMemory) (\<lambda>physicalMemory.
      let physicalMemory = memoryWidthStep memInfo physicalMemory in
      Inr (if SizeInBytes physicalMemory \<noteq> 0
           then systemInfo\<lparr>PhyMemory := PhyMemory systemInfo @ [physicalMemory]\<rparr>
           else systemInfo)))))"

subsection \<open>Type 0: BIOS\<close>

text \<open>
  Modelled from the spec: the declaration of the struct \<open>BIOSInfoRead\<close> is not among the
  sources. The spec puts the string references at the formatted offsets 0 (vendor),
  1 (version) and 4 (release date).
\<close>

definition BIOSInfoRead_Vendor_offset :: nat where
  "BIOSInfoRead_Vendor_offset = 0"

definition BIOSInfoRead_Version_offset :: nat where
  "BIOSInfoRead_Version_offset = 1"

definition BIOSInfoRead_ReleaseDate_offset :: nat where
  "BIOSInfoRead_ReleaseDate_offset = 4"

definition interpretBIOS ::
  "memory \<Rightarrow> SMBIOSVersion \<Rightarrow> byte list \<Rightarrow> gostring list \<Rightarrow> SystemInfo
     \<Rightarrow> error + SystemInfo" where
  "interpretBIOS behind version fb ss systemInfo =
     andThen (addressOfFirst fb) (\<lambda>_.
     let biosInfo = BIOSInfo_zero;
         valArrSize = (of_nat (length ss) :: byte);
         vendor = field8 behind fb BIOSInfoRead_Vendor_offset in
     andThen
       (if vendor > 0 \<and> vendor \<le> valArrSize then
          andThen (index ss (unat (vendor - 1))) (\<lambda>s. Inr (biosInfo\<lparr>Vendor := s\<rparr>))
        else Inr biosInfo)
       (\<lambda>biosInfo.
     let version' = field8 behind fb BIOSInfoRead_Version_offset in
     andThen
       (if version' > 0 \<and> version' \<le> valArrSize then
          andThen (index ss (unat (version' - 1))) (\<lambda>s.
            Inr (biosInfo\<lparr>BIOSInfo.Version := s\<rparr>))
        else Inr biosInfo)
       (\<lambda>biosInfo.
     let biosInfo =
           (if Major version \<ge> 0 \<and> Minor version \<ge> 0
            then biosInfo\<lparr>BiosVersion := Itoa (Major version) @ [0x2E] @ Itoa (Minor version)\<rparr>
            else biosInfo);
         releaseDate = field8 behind fb BIOSInfoRead_ReleaseDate_offset in
     andThen
       (if releaseDate > 0 then
          andThen (index ss (unat (releaseDate - 1))) (\<lambda>s.
            Inr (biosInfo\<lparr>ReleaseDate := s\<rparr>))
        else Inr biosInfo)
       (\<lambda>biosInfo.
     Inr (systemInfo\<lparr>BiosInfo := Some biosInfo\<rparr>)))))"

subsection \<open>The blocks in the order of \<open>Decoder.next\<close>\<close>

definition interpretStructure ::
  "memory \<Rightarrow> SMBIOSVersion \<Rightarrow> Header \<Rightarrow> byte list \<Rightarrow> gostring list
     \<Rightarrow> error + (gostring list \<times> SystemInfo)" where
  "interpretStructure behind version h fb ss =
     (let systemInfo = SystemInfo_zero in
      andThen
        (if Header.Type h = 1 then interpretSystem behind h fb ss systemInfo
         else Inr (ss, systemInfo))
        (\<lambda>(ss, systemInfo).
      andThen
        (if Header.Type h = 2 then interpretBaseboard behind fb ss systemInfo
         else Inr systemInfo)
        (\<lambda>systemInfo.
      andThen
        (if Header.Type h = 3 then interpretEnclosure behind fb systemInfo
         else Inr systemInfo)
        (\<lambda>systemInfo.
      andThen
        (if Header.Type h = 4 then interpretProcessor behind version fb ss systemInfo
         else Inr systemInfo)
        (\<lambda>systemInfo.
      andThen
        (if Header.Type h = 17 then interpretMemory fb ss systemInfo else Inr systemInfo)
        (\<lambda>systemInfo.
      andThen
        (if Header.Type h = 0 then interpretBIOS behind version fb ss systemInfo
         else Inr systemInfo)
        (\<lambda>systemInfo. Inr (ss, systemInfo))))))))"

section \<open>Decoding (Decoder.next and Decoder.Decode)\<close>

text \<open>
  The method \<open>next\<close> is \<open>Decoder_next\<close> here, since \<open>next\<close> is a keyword of Isabelle.
  It returns the structure together with the decoder after the call. Its first argument
  is the memory behind the formatted block that this call allocates.
\<close>

definition Decoder_next :: "memory \<Rightarrow> Decoder \<Rightarrow> error + (Structure \<times> Decoder)" where
  "Decoder_next behind d =
     (case parseHeader (br d) of
        Inl e \<Rightarrow> Inl e
      | Inr (h, r1) \<Rightarrow>
          let l = int (unat (Header.Length h)) - int headerLen in
          (case parseFormatted r1 l of
             Inl e \<Rightarrow> Inl e
           | Inr (fb, r2) \<Rightarrow>
               (case parseStrings r2 of
                  Inl e \<Rightarrow> Inl e
                | Inr (ss, r3) \<Rightarrow>
                    (case interpretStructure behind (Decoder.Version d) h fb ss of
                       Inl e \<Rightarrow> Inl e
                     | Inr (ss', systemInfo) \<Rightarrow>
                         Inr (\<lparr> Header = h, Formatted = fb, Strings = ss',
                                SystemInfo = systemInfo \<rparr>,
                              d\<lparr>br := r3\<rparr>)))))"
lemma parseHeader_shorter: "parseHeader r = Inr (h, r') \<Longrightarrow> length r' < length r"
  by (auto simp: parseHeader_def ReadFull_def headerLen_def split: if_splits)

lemma parseFormatted_le: "parseFormatted r l = Inr (fb, r') \<Longrightarrow> length r' \<le> length r"
  by (auto simp: parseFormatted_def ReadFull_def split: if_splits)

lemma parseStrings_loop_le:
  "parseStrings_loop ss r = Inr (ss', r') \<Longrightarrow> length r' \<le> length r"
proof (induction ss r rule: parseStrings_loop.induct)
  case (1 ss r)
  from "1.prems" obtain s more' r1 where p: "parseString r = Inr ((s, more'), r1)"
    by (subst (asm) parseStrings_loop.simps) (auto split: sum.splits)
  note sh = parseString_shorter [OF p]
  show ?case
  proof (cases more')
    case False
    with "1.prems" p sh show ?thesis
      by (subst (asm) parseStrings_loop.simps) simp
  next
    case True
    with "1.prems" p have "parseStrings_loop (ss @ [s]) r1 = Inr (ss', r')"
      by (subst (asm) parseStrings_loop.simps) simp
    from "1.IH" [OF p refl refl _ this] True sh show ?thesis by simp
  qed
qed

lemma parseStrings_le: "parseStrings r = Inr (ss, r') \<Longrightarrow> length r' \<le> length r"
  by (auto simp: parseStrings_def Peek_def split: if_splits dest: parseStrings_loop_le)

lemma Decoder_next_shorter:
  "Decoder_next behind d = Inr (s, d') \<Longrightarrow> length (br d') < length (br d)"
  by (fastforce simp: Decoder_next_def Let_def split: sum.splits prod.splits
      dest: parseHeader_shorter parseFormatted_le parseStrings_le)

text \<open>
  The loop of \<open>Decode\<close>; \<open>ss\<close> is the slice of structures appended so far. The result
  carries the decoder after the call next to the returned structures; the error return
  is the source's \<open>return nil, err\<close>, which drops what was appended. Every call of
  \<open>next\<close> allocates its own formatted block: \<open>mem k\<close> is the memory behind the block
  of the \<open>k\<close>-th structure still to be decoded.
\<close>

function Decode_loop ::
  "(nat \<Rightarrow> memory) \<Rightarrow> Decoder \<Rightarrow> Structure list \<Rightarrow> error + (Structure list \<times> Decoder)" where
  "Decode_loop mem d ss =
     (case Decoder_next (mem 0) d of
        Inl e \<Rightarrow> Inl e
      | Inr (s, d') \<Rightarrow>
          if Header.Type (Header s) = typeEndOfTable then Inr (ss @ [s], d')
          else Decode_loop (\<lambda>k. mem (Suc k)) d' (ss @ [s]))"
  by pat_completeness auto
termination
  by (relation "measure (\<lambda>(mem, d, ss). length (br d))") (auto dest: Decoder_next_shorter)

declare Decode_loop.simps [simp del]

definition Decode :: "(nat \<Rightarrow> memory) \<Rightarrow> Decoder \<Rightarrow> error + (Structure list \<times> Decoder)" where
  "Decode mem d = Decode_loop mem d []"
section \<open>The opaque stream (Stream and opaqueReadCloser)\<close>

text \<open>
  An \<open>io.ReadCloser\<close> is an interface value: two methods over a state the caller cannot
  see. \<open>Read\<close> takes the length of the buffer it is given and returns the bytes it
  stored there and its error; \<open>Close\<close> returns its error. Both return the new state.
\<close>

record 's ReadCloser =
  Read :: "nat \<Rightarrow> 's \<Rightarrow> (byte list \<times> error option) \<times> 's"
  Close :: "'s \<Rightarrow> error option \<times> 's"

record 's opaqueReadCloser =
  rc :: "'s ReadCloser"

definition opaqueReadCloser_Read ::
  "'s opaqueReadCloser \<Rightarrow> nat \<Rightarrow> 's \<Rightarrow> (byte list \<times> error option) \<times> 's" where
  "opaqueReadCloser_Read orc n = Read (rc orc) n"

definition opaqueReadCloser_Close :: "'s opaqueReadCloser \<Rightarrow> 's \<Rightarrow> error option \<times> 's" where
  "opaqueReadCloser_Close orc = Close (rc orc)"

text \<open>
  \<open>Stream\<close> calls the platform's \<open>stream()\<close>, which reads files, memory or firmware
  tables; its result is the parameter here. The type of the entry point plays no role.
\<close>

definition Stream ::
  "error + ('s ReadCloser \<times> 'ep) \<Rightarrow> error + ('s opaqueReadCloser \<times> 'ep)" where
  "Stream platform_stream =
     (case platform_stream of
        Inl err \<Rightarrow> Inl err
      | Inr (rc', ep) \<Rightarrow> Inr (\<lparr> rc = rc' \<rparr>, ep))"

text \<open>
  A caller's sequence of \<open>Read\<close> calls with buffers of the given lengths: the results in
  order, and the state after the last call.
\<close>

fun read_sequence ::
  "(nat \<Rightarrow> 's \<Rightarrow> (byte list \<times> error option) \<times> 's) \<Rightarrow> nat list \<Rightarrow> 's
     \<Rightarrow> (byte list \<times> error option) list \<times> 's" where
  "read_sequence rd [] s = ([], s)"
| "read_sequence rd (n # ns) s =
     (let (res, s') = rd n s; (rest, s'') = read_sequence rd ns s' in (res # rest, s''))"

text \<open>A reader over bytes in memory, as \<open>bytes.Reader\<close> behaves, with a no-op \<open>Close\<close>.\<close>

definition bytesReader :: "byte list ReadCloser" where
  "bytesReader = \<lparr>
     Read = (\<lambda>n s. if s = [] \<and> 0 < n then (([], Some EOF), s)
                   else ((take n s, None), drop n s)),
     Close = (\<lambda>s. (None, s)) \<rparr>"

section \<open>Sample structures\<close>

text \<open>The bytes of an ASCII string literal.\<close>

definition ascii :: "string \<Rightarrow> gostring" where
  "ascii s = map (\<lambda>c. of_nat (of_char c)) s"

text \<open>
  A record of type \<open>t\<close> with header length 4, an empty formatted section and no
  strings; with type 1 it is the input of \<open>TestDecoder\<close>'s case "no end of table".
\<close>

definition empty_record :: "byte \<Rightarrow> byte list" where
  "empty_record t = [t, 0x04, 0x01, 0x00, 0x00, 0x00]"

text \<open>
  The input of \<open>TestDecoder\<close>'s case "bad second message": a system record with eight
  formatted bytes and the string \<open>deadbeef\<close>, then a single byte \<open>0xFF\<close>.
\<close>

definition bad_second_message :: "byte list" where
  "bad_second_message =
     [0x01, 0x0C, 0x02, 0x00, 0xDE, 0xAD, 0xBE, 0xEF, 0xDE, 0xAD, 0xBE, 0xEF]
     @ ascii ''deadbeef'' @ [0x00, 0x00] @ [0xFF]"

text \<open>A memory-device record with nine formatted bytes and no strings.\<close>

definition short_memory_record :: "byte list" where
  "short_memory_record = [0x11, 0x0D, 0x01, 0x00, 0, 0, 0, 0, 0, 0, 0, 0, 0, 0x00, 0x00]"

text \<open>
  A system record with four formatted bytes, the serial-number reference 1, and an empty
  string-set.
\<close>

definition system_serial_without_strings :: "byte list" where
  "system_serial_without_strings =
     [0x01, 0x08, 0x01, 0x00, 0x00, 0x00, 0x00, 0x01, 0x00, 0x00]"

text \<open>
  A processor record with a formatted section of 40 bytes and the strings \<open>Intel\<close>
  and \<open>Xeon\<close>: manufacturer reference 1, core count 4 at offset 31, second core count 8
  at offset 38.
\<close>

definition processor_formatted :: "byte list" where
  "processor_formatted =
     [0x00, 0x03, 0x02, 0x01, 0, 0, 0, 0, 0, 0, 0, 0, 0, 0, 0, 0,
      0, 0, 0, 0, 0, 0, 0, 0, 0, 0, 0, 0, 0, 0, 0, 0x04,
      0, 0, 0, 0, 0, 0, 0x08, 0x00]"

definition processor_record :: "byte list" where
  "processor_record =
     [0x04, 0x2C, 0x01, 0x00] @ processor_formatted
     @ ascii ''Intel'' @ [0x00] @ ascii ''Xeon'' @ [0x00, 0x00]"

text \<open>
  A system record with manufacturer reference 1 and product-name reference 2 over the
  strings \<open>Acme\<close> and \<open>Widget\<close>.
\<close>

definition system_record :: "byte list" where
  "system_record =
     [0x01, 0x08, 0x01, 0x00, 0x01, 0x02, 0x00, 0x00]
     @ ascii ''Acme'' @ [0x00] @ ascii ''Widget'' @ [0x00, 0x00]"

text \<open>
  A table of two records: a system record with references 1, 2 and 3, a UUID that is
  neither all \<open>0x00\<close> nor all \<open>0xFF\<close>, and the strings \<open>A\<close>, \<open>B\<close>, \<open>C\<close>; then the
  end-of-table record.
\<close>

definition system_uuid_strings :: "byte list" where
  "system_uuid_strings = ascii ''A'' @ [0x00] @ ascii ''B'' @ [0x00] @ ascii ''C'' @ [0x00, 0x00]"

definition system_uuid_table :: "byte list" where
  "system_uuid_table =
     [0x01, 0x18, 0x01, 0x00, 0x01, 0x02, 0x00, 0x03,
      0xA4, 0x98, 0x35, 0x10, 0x71, 0xE2, 0x11, 0xE2,
      0xAD, 0xB1, 0xDF, 0x8B, 0xE4, 0x84, 0x1F, 0x5B]
     @ system_uuid_strings
     @ [0x7F, 0x04, 0x02, 0x00, 0x00, 0x00]"

text \<open>
  A memory-device record of 17 formatted bytes whose size field is \<open>0x8100\<close>: bit 15
  set, 256 in the low bits.
\<close>

definition memory_record_256KB :: "byte list" where
  "memory_record_256KB =
     [0x11, 0x15, 0x01, 0x00,
      0, 0, 0, 0, 0, 0, 0, 0, 0x00, 0x81, 0, 0, 0, 0, 0, 0, 0,
      0x00, 0x00]"

text \<open>
  A table of three records of types the decoder does not interpret (5 and 6), the second
  with two strings, and the end-of-table record with two formatted bytes and two strings.
\<close>

definition three_record_table :: "byte list" where
  "three_record_table =
     [0x05, 0x05, 0x01, 0x00, 0xFF, 0x00, 0x00]
     @ [0x06, 0x06, 0x02, 0x00, 0xDE, 0xAD] @ ascii ''dead'' @ [0x00] @ ascii ''beef'' @ [0x00, 0x00]
     @ [0x7F, 0x06, 0x03, 0x00, 0x01, 0x02] @ ascii ''abcd'' @ [0x00] @ ascii ''1234'' @ [0x00, 0x00]"

section \<open>The claims' words\<close>

text \<open>
  The reported size of a memory device as claim C3 states it, from the 16-bit size, the
  extended size and the length of the formatted section.
\<close>

definition reported_size_as_claimed :: "16 word \<Rightarrow> 32 word \<Rightarrow> nat \<Rightarrow> 64 word" where
  "reported_size_as_claimed size' extended_size formatted_length =
     (if size' = 0x7FFF \<and> formatted_length \<ge> 30 then ucast extended_size * 1048576
      else if \<not> bit size' 15 then ucast (size' AND 0x7FFF) * 1048576
      else ucast (size' AND 0x7FFF) * 1024)"








text \<open>
  The reported size of a memory device as the block computes it from the formatted
  bytes: the size field counts only from 17 bytes on, and bit 15 stays in the factor.
\<close>

definition reported_size_of_code :: "byte list \<Rightarrow> 64 word" where
  "reported_size_of_code fb =
     (let size' = (if 17 \<le> length fb then Uint16 (slice fb 8 10) else 0) in
      if size' = 0x7FFF \<and> 30 \<le> length fb then ucast (Uint32 (slice fb 24 28)) * 1048576
      else if \<not> bit (Uint16 (slice fb 8 10)) 15 then ucast size' * 1048576
      else ucast size' * 1024)"

section \<open>Consumed bytes\<close>

text \<open>The errors a reader returns when the stream ends early.\<close>

definition io_error :: "error \<Rightarrow> bool" where
  "io_error e \<longleftrightarrow> e = EOF \<or> e = ErrUnexpectedEOF"

text \<open>
  A parser \<open>P\<close> frames the result \<open>x\<close> from the bytes \<open>c\<close>: on \<open>c\<close> followed by any
  bytes it returns \<open>x\<close> and leaves exactly those bytes, and on every proper prefix of
  \<open>c\<close> it returns an end-of-stream error.
\<close>

definition frames :: "(byte list \<Rightarrow> error + ('a \<times> byte list)) \<Rightarrow> byte list \<Rightarrow> 'a \<Rightarrow> bool" where
  "frames P c x \<longleftrightarrow>
     (\<forall>r. P (c @ r) = Inr (x, r))
   \<and> (\<forall>k<length c. \<exists>e. io_error e \<and> P (take k c) = Inl e)"

text \<open>
  The structures \<open>new\<close> are decoded from the consecutive chunks \<open>cs\<close>: chunk \<open>i\<close> is not
  empty, and \<open>Decoder.next\<close> on it, whatever follows, returns structure \<open>i\<close> and leaves
  what follows.
\<close>

definition decoded_from ::
  "(nat \<Rightarrow> memory) \<Rightarrow> Decoder \<Rightarrow> byte list list \<Rightarrow> Structure list \<Rightarrow> bool" where
  "decoded_from mem d cs new \<longleftrightarrow>
     length cs = length new
   \<and> (\<forall>i<length new. cs ! i \<noteq> []
         \<and> (\<forall>r. Decoder_next (mem i) (d\<lparr>br := cs ! i @ r\<rparr>) = Inr (new ! i, d\<lparr>br := r\<rparr>)))"

section \<open>Decomposing a successful call of \<open>Decoder.next\<close>\<close>

lemma andThen_simps [simp]:
  "andThen (Inl e) f = Inl e"
  "andThen (Inr x) f = f x"
  by (simp_all add: andThen_def)

lemma andThen_InrE:
  assumes "andThen m f = Inr y"
  obtains x where "m = Inr x" and "f x = Inr y"
  using assms by (cases m) simp_all

lemma Decoder_next_Inr:
  assumes "Decoder_next behind d = Inr (s, d')"
  obtains h r1 fb r2 ss r3 ss' si where
    "parseHeader (br d) = Inr (h, r1)"
    "parseFormatted r1 (int (unat (Header.Length h)) - int headerLen) = Inr (fb, r2)"
    "parseStrings r2 = Inr (ss, r3)"
    "interpretStructure behind (Decoder.Version d) h fb ss = Inr (ss', si)"
    "s = \<lparr> Header = h, Formatted = fb, Strings = ss', SystemInfo = si \<rparr>"
    "d' = d\<lparr>br := r3\<rparr>"
  using assms
  by (auto simp: Decoder_next_def Let_def split: sum.splits prod.splits)

lemma field8_in_block: "off < length fb \<Longrightarrow> field8 behind fb off = fb ! off"
  by (simp add: field8_def)

lemma field8_behind_block:
  "length fb \<le> off \<Longrightarrow> field8 behind fb off = behind (off - length fb)"
  by (simp add: field8_def)

lemma field16_in_block:
  "off + 2 \<le> length fb \<Longrightarrow> field16 behind fb off = Uint16 (slice fb off (off + 2))"
  by (simp add: field16_def field8_def Uint16_def slice_def)

section \<open>Entry-point checksum\<close>

lemma checksum_loop_sum:
  "checksum_loop chk k i xs =
     chk + sum_list xs - (if i \<le> k \<and> k < i + length xs then xs ! (k - i) else 0)"
proof (induction xs arbitrary: chk i)
  case Nil
  then show ?case by auto
next
  case (Cons x xs)
  show ?case
  proof (cases "i = k")
    case True
    then show ?thesis by (simp add: Cons.IH)
  next
    case False
    then have "(i \<le> k \<and> k < i + length (x # xs)) = (Suc i \<le> k \<and> k < Suc i + length xs)"
      by auto
    moreover have "(x # xs) ! (k - i) = xs ! (k - Suc i)" if "i \<le> k"
    proof -
      from that False have "k - i = Suc (k - Suc i)" by arith
      then show ?thesis by simp
    qed
    ultimately show ?thesis using False by (simp add: Cons.IH)
  qed
qed

lemma checksum_accepts_iff:
  assumes "k < length b"
  shows "checksum (b ! k) k b = None \<longleftrightarrow> sum_list b = 0"
  using assms by (simp add: checksum_def checksum_loop_sum Let_def)

lemma of_nat_sum_unat: "of_nat (sum_list (map unat b)) = (sum_list b :: byte)"
  by (induction b) simp_all

lemma sum_zero_iff_mod:
  "sum_list (b :: byte list) = 0 \<longleftrightarrow> sum_list (map unat b) mod 256 = 0"
proof -
  have "sum_list b = 0 \<longleftrightarrow> (of_nat (sum_list (map unat b)) :: byte) = 0"
    by (simp add: of_nat_sum_unat)
  also have "\<dots> \<longleftrightarrow> 2 ^ LENGTH(8) dvd sum_list (map unat b)"
    by (rule word_of_nat_eq_0_iff)
  finally show ?thesis by (simp add: dvd_eq_mod_eq_0)
qed

text \<open>
  Claim C5. \<open>ParseEntryPoint\<close> works on the record \<open>take 64 r\<close>, the bytes it read.
  Once the anchor, the minimum length, the length byte and (for the 32-bit variant) the
  intermediate anchor are right, the record is accepted exactly when the sum of all its
  bytes, the stored checksum byte counted once, is 0 modulo 256.
\<close>

theorem entry_point_accepted_iff_sum_zero:
  assumes "checks_before_checksum (take 64 r)"
  shows "(\<exists>ep. ParseEntryPoint r = Inr ep)
     \<longleftrightarrow> sum_list (map unat (take 64 r)) mod 256 = 0"
proof -
  define b where "b = take 64 r"
  from assms consider
      (v32) "prefix magic32 b" "31 \<le> length b" "length b = unat (b ! 5)"
        "slice b 16 21 = magicDMI"
    | (v64) "prefix magic64 b" "24 \<le> length b" "length b = unat (b ! 6)"
    unfolding checks_before_checksum_def b_def by blast
  then have "(\<exists>ep. ParseEntryPoint r = Inr ep) \<longleftrightarrow> sum_list b = 0"
  proof cases
    case v32
    from v32(2) have k: "4 < length b" by simp
    have "(\<exists>ep. parse32 b = Inr ep) \<longleftrightarrow> checksum (b ! 4) 4 b = None"
      using v32 by (auto simp: parse32_def Let_def split: option.splits)
    then show ?thesis
      using v32 k checksum_accepts_iff [OF k]
      by (auto simp: ParseEntryPoint_def Let_def b_def [symmetric] map_sum_def
          split: sum.splits)
  next
    case v64
    from v64(2) have k: "5 < length b" by simp
    have n32: "\<not> prefix magic32 b"
      using v64(1) by (auto simp: prefix_def magic32_def magic64_def)
    have "(\<exists>ep. parse64 b = Inr ep) \<longleftrightarrow> checksum (b ! 5) 5 b = None"
      using v64 by (auto simp: parse64_def Let_def split: option.splits)
    then show ?thesis
      using v64 k n32 checksum_accepts_iff [OF k]
      by (auto simp: ParseEntryPoint_def Let_def b_def [symmetric] map_sum_def
          split: sum.splits)
  qed
  then show ?thesis by (simp add: sum_zero_iff_mod b_def)
qed

lemma sample64_checks: "checks_before_checksum (take 64 sample64)"
  by (simp add: checks_before_checksum_def sample64_def magic64_def magic32_def slice_def
      magicDMI_def)

lemma sample32_checks: "checks_before_checksum (take 64 sample32)"
  by (simp add: checks_before_checksum_def sample32_def magic64_def magic32_def slice_def
      magicDMI_def)

theorem entry_point_accepted_iff_sum_zero_witness:
  "checks_before_checksum (take 64 sample64)
   \<and> (\<exists>ep. ParseEntryPoint sample64 = Inr ep)
   \<and> sum_list (map unat (take 64 sample64)) mod 256 = 0
   \<and> checks_before_checksum (take 64 sample32)
   \<and> (\<exists>ep. ParseEntryPoint sample32 = Inr ep)
   \<and> sum_list (map unat (take 64 sample32)) mod 256 = 0"
proof -
  have s64: "sum_list (map unat (take 64 sample64)) mod 256 = 0"
    by (simp add: sample64_def)
  have s32: "sum_list (map unat (take 64 sample32)) mod 256 = 0"
    by (simp add: sample32_def)
  show ?thesis
    using entry_point_accepted_iff_sum_zero [OF sample64_checks]
      entry_point_accepted_iff_sum_zero [OF sample32_checks]
      sample64_checks sample32_checks s64 s32 by blast
qed

section \<open>The memory scanner: first matching paragraph\<close>

lemma paragraph_count_step:
  "addr < e \<Longrightarrow> nat ((e - addr + 15) div 16) = Suc (nat ((e - (addr + 16) + 15) div 16))"
  for addr e :: int
  by linarith

lemma window_paragraphs_step:
  assumes "addr < e"
  shows "window_paragraphs addr e = addr # window_paragraphs (addr + 16) e"
proof -
  let ?n = "nat ((e - (addr + 16) + 15) div 16)"
  have f: "(\<lambda>k. addr + 16 * int (Suc k)) = (\<lambda>k. addr + 16 + 16 * int k)"
    by (rule ext) simp
  have "map (\<lambda>k. addr + 16 * int k) [0 ..< Suc ?n]
      = addr # map (\<lambda>k. addr + 16 * int (Suc k)) [0 ..< ?n]"
    by (simp only: upt_conv_Cons [OF zero_less_Suc] map_Suc_upt [symmetric]) simp
  then show ?thesis
    unfolding window_paragraphs_def paragraph_count_step [OF assms] f .
qed

lemma window_paragraphs_empty: "\<not> addr < e \<Longrightarrow> window_paragraphs addr e = []"
  by (simp add: window_paragraphs_def)

lemma prefix_take_iff: "length mp \<le> n \<Longrightarrow> prefix mp (take n xs) \<longleftrightarrow> prefix mp xs"
  by (metis prefix_length_prefix take_is_prefix prefix_order.order_trans length_take
      min.cobounded2 prefix_def append_eq_conv_conj take_take min.absorb1)

lemma findEntryPoint_loop_done:
  "\<not> addr < e \<Longrightarrow> findEntryPoint_loop mp r addr e = Inl NoEntryPointFound"
  by (subst findEntryPoint_loop.simps) simp

lemma findEntryPoint_loop_step:
  "addr < e \<Longrightarrow> findEntryPoint_loop mp r addr e =
     (case ReadFull r 16 of
        Inl e \<Rightarrow> Inl e
      | Inr (b, r') \<Rightarrow>
          if prefix mp b then Inr addr else findEntryPoint_loop mp r' (addr + 16) e)"
  by (subst findEntryPoint_loop.simps) simp

lemma findEntryPoint_loop_scan_list:
  assumes "length mp \<le> 16"
  shows "0 \<le> addr \<Longrightarrow> findEntryPoint_loop mp (drop (nat addr) rs) addr e
     = scan_list mp rs (window_paragraphs addr e)"
proof (induction "nat (e - addr)" arbitrary: addr rule: less_induct)
  case less
  show ?case
  proof (cases "addr < e")
    case False
    then show ?thesis
      by (simp add: findEntryPoint_loop_done window_paragraphs_empty)
  next
    case True
    have m: "nat (e - (addr + 16)) < nat (e - addr)" using True by linarith
    have p: "0 \<le> addr + 16" using less(2) by simp
    note IH = less(1) [OF m p]
    show ?thesis
    proof (cases "paragraph_readable rs addr")
      case False
      then show ?thesis
        by (simp add: findEntryPoint_loop_step [OF True] window_paragraphs_step [OF True]
          ReadFull_def paragraph_readable_def)
    next
      case r: True
      then have rf: "ReadFull (drop (nat addr) rs) 16
          = Inr (take 16 (drop (nat addr) rs), drop (nat (addr + 16)) rs)"
        using less(2)
        by (auto simp: ReadFull_def paragraph_readable_def nat_add_distrib add.commute)
      show ?thesis
        using r
        by (simp add: findEntryPoint_loop_step [OF True] window_paragraphs_step [OF True] rf IH
            anchor_begins_def prefix_take_iff [OF assms])
    qed
  qed
qed



lemma scan_list_NoEntry_iff:
  "scan_list mp rs as = Inl NoEntryPointFound \<longleftrightarrow>
     (\<forall>a' \<in> set as. paragraph_readable rs a' \<and> \<not> anchor_begins mp rs a')"
  by (induction as) auto

lemma scan_list_Inr_iff:
  "sorted_wrt (<) as \<Longrightarrow> scan_list mp rs as = Inr a \<longleftrightarrow>
     a \<in> set as \<and> anchor_begins mp rs a
     \<and> (\<forall>a' \<in> set as. a' < a \<longrightarrow> \<not> anchor_begins mp rs a')
     \<and> (\<forall>a' \<in> set as. a' \<le> a \<longrightarrow> paragraph_readable rs a')"
proof (induction as)
  case Nil
  then show ?case by simp
next
  case (Cons x xs)
  from Cons.prems have s: "sorted_wrt (<) xs" and lt: "\<forall>y \<in> set xs. x < y" by simp_all
  note IH = Cons.IH [OF s]
  show ?case
  proof (cases "paragraph_readable rs x")
    case False
    then show ?thesis using lt by (auto simp: less_imp_le)
  next
    case r: True
    show ?thesis
    proof (cases "anchor_begins mp rs x")
      case True
      then show ?thesis using r lt by auto
    next
      case False
      then show ?thesis using r lt IH by auto
    qed
  qed
qed


lemma sorted_window_paragraphs: "sorted_wrt (<) (window_paragraphs start e)"
  unfolding window_paragraphs_def sorted_wrt_map
  by (rule sorted_wrt_mono_rel [OF _ sorted_wrt_upt]) simp

lemma set_window_paragraphs:
  "a \<in> set (window_paragraphs start e) \<longleftrightarrow> paragraph_in_window start e a"
proof
  assume "a \<in> set (window_paragraphs start e)"
  then obtain k where k: "k < nat ((e - start + 15) div 16)" and a: "a = start + 16 * int k"
    by (auto simp: window_paragraphs_def)
  from k have "int k < (e - start + 15) div 16" by linarith
  then have "16 * int k < e - start" by linarith
  with a show "paragraph_in_window start e a" by (simp add: paragraph_in_window_def)
next
  assume "paragraph_in_window start e a"
  then have b: "start \<le> a" "a < e" and m: "(a - start) mod 16 = 0"
    by (simp_all add: paragraph_in_window_def)
  define d where "d = a - start"
  define k where "k = nat (d div 16)"
  have d0: "0 \<le> d" "d mod 16 = 0" "d < e - start" using b m by (simp_all add: d_def)
  have dk: "d = 16 * (d div 16)" using d0(2) mult_div_mod_eq [of 16 d] by simp
  have kk: "int k = d div 16" using d0(1) by (simp add: k_def)
  have a: "a = start + 16 * int k" using dk kk by (simp add: d_def)
  have "d div 16 < (e - start + 15) div 16" using d0 dk by linarith
  then have "k < nat ((e - start + 15) div 16)" using kk by linarith
  then show "a \<in> set (window_paragraphs start e)"
    unfolding window_paragraphs_def using a by (auto intro!: image_eqI [where x = k])
qed


text \<open>
  Claim C6, as stated, at an empty source (the repository's \<open>Test_memoryStream\<close> case
  "empty"): no anchor begins anywhere, and the scan fails with the reader's \<open>EOF\<close>, not
  with the no-entry-point error.
\<close>

theorem findEntryPoint_empty_source_counterexample:
  "findEntryPoint magicPrefix_SM [] 0 16 = Inl EOF
   \<and> scan_as_claimed magicPrefix_SM [] 0 16 = Inl NoEntryPointFound"
  by (simp add: findEntryPoint_def findEntryPoint_loop_step ReadFull_def scan_as_claimed_def
      window_paragraphs_def anchor_begins_def magicPrefix_SM_def)

text \<open>
  Claim C6, amended. For a non-negative start and a prefix of at most 16 bytes,
  \<open>findEntryPoint\<close> returns \<open>a\<close> exactly when \<open>a\<close> is the first paragraph position
  \<open>start + 16 k\<close> of the half-open window at which an anchor prefix begins and the source
  holds the 16 bytes of that paragraph and of every earlier one of the window; it fails
  with the no-entry-point error exactly when every paragraph of the window is readable and
  none starts with the prefix; its only other failures are the reader's \<open>EOF\<close> and
  \<open>ErrUnexpectedEOF\<close>. Positions off the paragraph grid or outside the window are never
  returned.
\<close>

theorem findEntryPoint_first_readable_paragraph:
  assumes "0 \<le> start" and "length magicPrefix \<le> 16"
  shows "(findEntryPoint magicPrefix rs start end' = Inr a \<longleftrightarrow>
            paragraph_in_window start end' a \<and> anchor_begins magicPrefix rs a
            \<and> (\<forall>a'. paragraph_in_window start end' a' \<and> a' < a
                  \<longrightarrow> \<not> anchor_begins magicPrefix rs a')
            \<and> (\<forall>a'. paragraph_in_window start end' a' \<and> a' \<le> a
                  \<longrightarrow> paragraph_readable rs a'))
       \<and> (findEntryPoint magicPrefix rs start end' = Inl NoEntryPointFound \<longleftrightarrow>
            (\<forall>a'. paragraph_in_window start end' a'
                  \<longrightarrow> paragraph_readable rs a' \<and> \<not> anchor_begins magicPrefix rs a'))
       \<and> (\<forall>e. findEntryPoint magicPrefix rs start end' = Inl e
            \<longrightarrow> e = NoEntryPointFound \<or> e = EOF \<or> e = ErrUnexpectedEOF)"
proof -
  have eq: "findEntryPoint magicPrefix rs start end'
      = scan_list magicPrefix rs (window_paragraphs start end')"
    using assms by (simp add: findEntryPoint_def findEntryPoint_loop_scan_list)
  have io: "scan_list magicPrefix rs as = Inl e
      \<Longrightarrow> e = NoEntryPointFound \<or> e = EOF \<or> e = ErrUnexpectedEOF" for as e
    by (induction as) (auto split: if_splits)
  show ?thesis
    unfolding eq scan_list_Inr_iff [OF sorted_window_paragraphs] scan_list_NoEntry_iff
    using io by (auto simp: set_window_paragraphs)
qed

theorem findEntryPoint_first_readable_paragraph_witness:
  "(0::int) \<le> 0 \<and> length magicPrefix_SM \<le> 16
   \<and> findEntryPoint magicPrefix_SM memory_with_entry_point 0 48 = Inr 16
   \<and> paragraph_in_window 0 48 16 \<and> anchor_begins magicPrefix_SM memory_with_entry_point 16
   \<and> paragraph_readable memory_with_entry_point 0
   \<and> \<not> anchor_begins magicPrefix_SM memory_with_entry_point 0"
proof -
  have l: "length magicPrefix_SM \<le> 16" by (simp add: magicPrefix_SM_def)
  have r: "findEntryPoint magicPrefix_SM memory_with_entry_point 0 48 = Inr 16"
    by (simp add: findEntryPoint_def findEntryPoint_loop_step ReadFull_def magicPrefix_SM_def
        memory_with_entry_point_def sample64_def)
  have p0: "paragraph_in_window 0 48 0" by (simp add: paragraph_in_window_def)
  from findEntryPoint_first_readable_paragraph
    [of 0 magicPrefix_SM memory_with_entry_point 48 16, OF order_refl l] r p0
  show ?thesis using l by auto
qed

section \<open>Recognized types on short or inconsistent records\<close>

text \<open>
  Whatever the version, the strings and the memory behind the block, a recognized type
  with an empty formatted block makes the interpretation panic, and so does a memory
  device with fewer than ten formatted bytes.
\<close>

lemma interpretStructure_empty_block:
  assumes "Header.Type h = 0 \<or> Header.Type h = 1 \<or> Header.Type h = 2 \<or> Header.Type h = 3
     \<or> Header.Type h = 4 \<or> Header.Type h = 17"
  shows "interpretStructure behind v h [] ss = Inl PanicIndexOutOfRange"
  using assms
  by (elim disjE)
    (simp_all add: interpretStructure_def interpretSystem_def interpretBaseboard_def
      interpretEnclosure_def interpretProcessor_def interpretBIOS_def interpretMemory_def
      memoryManufacturerStep_def memorySerialStep_def memorySizeStep_def
      readMemoryInfo_def addressOfFirst_def index_def Let_def MemoryInfoRead_zero_def
      sizeAsPer2_1_def sizeAsPer2_3_def sizeAsPer2_6_def sizeAsPer2_7_def sizeAsPer2_8_def)

lemma interpretMemory_short_block:
  assumes "length fb < 10"
  shows "interpretMemory fb ss si = Inl PanicIndexOutOfRange"
  using assms
  by (simp add: interpretMemory_def memoryManufacturerStep_def memorySerialStep_def
      memorySizeStep_def readMemoryInfo_def index_def Let_def MemoryInfoRead_zero_def
      sizeAsPer2_1_def sizeAsPer2_3_def sizeAsPer2_6_def sizeAsPer2_7_def sizeAsPer2_8_def)

lemma Decoder_next_empty_block_panics:
  assumes "parseHeader (br d) = Inr (h, r1)" and "Header.Length h = 4"
    and "parseStrings r1 = Inr (ss, r2)"
    and "Header.Type h = 0 \<or> Header.Type h = 1 \<or> Header.Type h = 2 \<or> Header.Type h = 3
     \<or> Header.Type h = 4 \<or> Header.Type h = 17"
  shows "Decoder_next behind d = Inl PanicIndexOutOfRange"
  using assms(1-3) interpretStructure_empty_block [OF assms(4)]
  by (simp add: Decoder_next_def parseFormatted_def headerLen_def)

text \<open>
  Claim C8 at records of the six recognized types with header length 4 (for type 1 the
  input of \<open>TestDecoder\<close>'s case "no end of table") and at a memory-device record of
  nine formatted bytes: \<open>Decoder.next\<close> panics with an index out of range, at \<open>&fb[0]\<close>
  or at \<open>fb[9]\<close>, where the claim has the fields absent.
\<close>

theorem recognized_type_empty_block_panics:
  "Decoder_next behind (NewDecoder (empty_record 0)) = Inl PanicIndexOutOfRange
   \<and> Decoder_next behind (NewDecoder (empty_record 1)) = Inl PanicIndexOutOfRange
   \<and> Decoder_next behind (NewDecoder (empty_record 2)) = Inl PanicIndexOutOfRange
   \<and> Decoder_next behind (NewDecoder (empty_record 3)) = Inl PanicIndexOutOfRange
   \<and> Decoder_next behind (NewDecoder (empty_record 4)) = Inl PanicIndexOutOfRange
   \<and> Decoder_next behind (NewDecoder (empty_record 17)) = Inl PanicIndexOutOfRange
   \<and> Decoder_next behind (NewDecoder short_memory_record) = Inl PanicIndexOutOfRange"
  by code_simp

text \<open>
  Claim C1 at a system record whose serial-number reference is 1 while the string-set is
  empty, and at a processor record whose manufacturer reference is 1 over two strings:
  the first panics at \<open>ss[sysInfo.SN-1]\<close> where the claim has the field absent, the
  second yields the second string, \<open>Xeon\<close>, where the claim has the first, \<open>Intel\<close>.
\<close>

theorem string_reference_unchecked_or_shifted:
  "Decoder_next behind (NewDecoder system_serial_without_strings) = Inl PanicIndexOutOfRange
   \<and> map_sum id (map Processor.Product \<circ> Processors \<circ> SystemInfo \<circ> fst)
         (Decoder_next behind (NewDecoder processor_record)) = Inr [ascii ''Xeon'']
   \<and> map_sum id (Strings \<circ> fst) (Decoder_next behind (NewDecoder processor_record))
         = Inr [ascii ''Intel'', ascii ''Xeon'']
   \<and> processor_formatted ! 3 = 1"
  by code_simp

text \<open>
  Claim C4 at a system record with manufacturer reference 1 (offset 0) and product-name
  reference 2 (offset 1) over the strings \<open>Acme\<close> and \<open>Widget\<close>: the manufacturer field
  of the projection holds \<open>Widget\<close> and the product-name field holds \<open>Acme\<close>.
\<close>

theorem system_manufacturer_product_swapped:
  "map_sum id ((\<lambda>s. (Formatted s, Strings s, SystemManufacturerRef (SystemInfo s),
                     SystemProductName (SystemInfo s))) \<circ> fst)
     (Decoder_next behind (NewDecoder system_record))
   = Inr ([1, 2, 0, 0], [ascii ''Acme'', ascii ''Widget''], ascii ''Widget'', ascii ''Acme'')"
  by code_simp

text \<open>
  Claim C9 at a table of a system record with a proper UUID and three strings, then the
  end-of-table record: \<open>Decode\<close> succeeds, and the string vector of the system structure
  has four entries, the three strings framed from the stream and the rendered UUID.
\<close>

theorem system_uuid_appended_to_strings:
  "map_sum id (map Strings \<circ> fst) (Decode mem (NewDecoder system_uuid_table))
     = Inr [[ascii ''A'', ascii ''B'', ascii ''C'',
             ascii ''103598A4-E271-E211-ADB1-DF8BE4841F5B''], []]
   \<and> map_sum id fst (parseStrings (drop 24 system_uuid_table))
     = Inr [ascii ''A'', ascii ''B'', ascii ''C'']"
  by code_simp

text \<open>
  Claim C3 at a memory-device record whose size field is \<open>0x8100\<close> (bit 15 set, 256 in
  the low bits): the reported size is \<open>0x8100 * 1024 = 33816576\<close> bytes, where the claim
  has \<open>256 * 1024 = 262144\<close>.
\<close>

theorem memory_size_kilobytes_keeps_bit_15:
  "map_sum id (map SizeInBytes \<circ> PhyMemory \<circ> SystemInfo \<circ> fst)
     (Decoder_next behind (NewDecoder memory_record_256KB)) = Inr [33816576]
   \<and> map_sum id (Formatted \<circ> fst) (Decoder_next behind (NewDecoder memory_record_256KB))
       = Inr (slice memory_record_256KB 4 21)
   \<and> Uint16 (slice (slice memory_record_256KB 4 21) 8 10) = 0x8100
   \<and> reported_size_as_claimed 0x8100 0 17 = 262144"
  by code_simp

section \<open>Processor core count\<close>










lemma of_nat_byte_le: "unat (x :: byte) < unat (of_nat n :: byte) \<Longrightarrow> unat x < n"
proof -
  assume a: "unat x < unat (of_nat n :: byte)"
  have "unat (of_nat n :: byte) \<le> n" by (simp add: unat_of_nat)
  with a show ?thesis by simp
qed

lemma processorProductStep_returns:
  "\<exists>p'. processorProductStep behind fb ss p = Inr p'"
  by (auto simp: processorProductStep_def Let_def index_def word_less_nat_alt
      dest: of_nat_byte_le)

lemma interpretProcessor_returns:
  assumes "fb \<noteq> []"
  shows "\<exists>si. interpretProcessor behind v fb ss si0 = Inr si"
proof -
  obtain p' where "processorProductStep behind fb ss
      (coreCountStep behind v fb (processorFamilyStep behind fb
        (fst (processorIDStep behind fb Processor_zero si0)))) = Inr p'"
    using processorProductStep_returns by blast
  with assms show ?thesis
    by (simp add: interpretProcessor_def addressOfFirst_def Let_def split_beta)
qed




section \<open>Decode: the structures it returns, and the ways it fails\<close>

lemma framesI:
  assumes "\<And>r. P (c @ r) = Inr (x, r)"
    and "\<And>k. k < length c \<Longrightarrow> \<exists>e. io_error e \<and> P (take k c) = Inl e"
  shows "frames P c x"
  using assms by (simp add: frames_def)

lemma frames_extend: "frames P c x \<Longrightarrow> P (c @ r) = Inr (x, r)"
  by (simp add: frames_def)

lemma frames_truncate:
  "frames P c x \<Longrightarrow> k < length c \<Longrightarrow> \<exists>e. io_error e \<and> P (take k c) = Inl e"
  by (simp add: frames_def)

lemma frames_bind:
  assumes P: "frames P c1 x" and Q: "frames (Q x) c2 y"
  shows "frames (\<lambda>b. case P b of Inl e \<Rightarrow> Inl e | Inr (x, r) \<Rightarrow> Q x r) (c1 @ c2) y"
proof (rule framesI)
  fix r
  show "(case P ((c1 @ c2) @ r) of Inl e \<Rightarrow> Inl e | Inr (x, r) \<Rightarrow> Q x r) = Inr (y, r)"
    using frames_extend [OF P, of "c2 @ r"] frames_extend [OF Q, of r] by simp
next
  fix k
  assume k: "k < length (c1 @ c2)"
  show "\<exists>e. io_error e \<and>
      (case P (take k (c1 @ c2)) of Inl e \<Rightarrow> Inl e | Inr (x, r) \<Rightarrow> Q x r) = Inl e"
  proof (cases "k < length c1")
    case True
    with frames_truncate [OF P True] show ?thesis by auto
  next
    case False
    then have t: "take k (c1 @ c2) = c1 @ take (k - length c1) c2" by simp
    from False k have j: "k - length c1 < length c2" by simp
    from frames_truncate [OF Q j] frames_extend [OF P, of "take (k - length c1) c2"]
    show ?thesis unfolding t by auto
  qed
qed

lemma frames_pure:
  "frames (\<lambda>b. case m of Inl e \<Rightarrow> Inl e | Inr y \<Rightarrow> Inr (y, b)) [] y" if "m = Inr y"
  using that by (simp add: frames_def)

lemma ReadFull_frames:
  assumes "ReadFull b n = Inr (x, r)"
  shows "b = x @ r \<and> length x = n \<and> frames (\<lambda>b. ReadFull b n) x x"
proof -
  from assms have n: "n \<le> length b" and x: "x = take n b" and r: "r = drop n b"
    by (auto simp: ReadFull_def split: if_splits)
  have "frames (\<lambda>b. ReadFull b n) x x"
  proof (rule framesI)
    fix r' show "ReadFull (x @ r') n = Inr (x, r')" using n x by (simp add: ReadFull_def)
  next
    fix k assume "k < length x"
    then show "\<exists>e. io_error e \<and> ReadFull (take k x) n = Inl e"
      using n x by (auto simp: ReadFull_def io_error_def)
  qed
  with n x r show ?thesis by simp
qed

lemma parseHeader_frames:
  assumes "parseHeader b = Inr (h, r)"
  shows "\<exists>c. b = c @ r \<and> length c = 4 \<and> frames parseHeader c h"
proof -
  from assms obtain x where rf: "ReadFull b headerLen = Inr (x, r)"
    and h: "h = \<lparr> Header.Type = x ! 0, Header.Length = x ! 1, Handle = Uint16 (slice x 2 4) \<rparr>"
    by (auto simp: parseHeader_def split: sum.splits)
  from ReadFull_frames [OF rf] have b: "b = x @ r" and l: "length x = 4"
    and f: "frames (\<lambda>b. ReadFull b headerLen) x x" by (simp_all add: headerLen_def)
  have "frames parseHeader x h"
  proof (rule framesI)
    fix r' show "parseHeader (x @ r') = Inr (h, r')"
      using frames_extend [OF f, of r'] h by (simp add: parseHeader_def)
  next
    fix k assume "k < length x"
    from frames_truncate [OF f this] show "\<exists>e. io_error e \<and> parseHeader (take k x) = Inl e"
      by (auto simp: parseHeader_def)
  qed
  with b l show ?thesis by blast
qed

lemma parseFormatted_frames:
  assumes "parseFormatted b l = Inr (fb, r)"
  shows "b = fb @ r \<and> frames (\<lambda>b. parseFormatted b l) fb fb"
proof (cases "l = 0")
  case True
  with assms show ?thesis by (auto simp: parseFormatted_def frames_def)
next
  case False
  with assms have pos: "0 < l" and rf: "ReadFull b (nat l) = Inr (fb, r)"
    by (auto simp: parseFormatted_def split: if_splits)
  from ReadFull_frames [OF rf] have b: "b = fb @ r"
    and f: "frames (\<lambda>b. ReadFull b (nat l)) fb fb" by simp_all
  have "(\<lambda>b. parseFormatted b l) = (\<lambda>b. ReadFull b (nat l))"
    using pos by (auto simp: parseFormatted_def)
  with b f show ?thesis by simp
qed


lemma ReadBytes0_append: "0 \<notin> set s \<Longrightarrow> ReadBytes0 (s @ 0 # r) = Inr (s @ [0], r)"
proof -
  assume z: "0 \<notin> set s"
  then have a: "\<forall>x\<in>set s. x \<noteq> 0" by auto
  have "dropWhile (\<lambda>x. x \<noteq> 0) (s @ 0 # r) = 0 # r"
    using a by (simp add: dropWhile_append3)
  moreover have "takeWhile (\<lambda>x. x \<noteq> 0) (s @ 0 # r) = s"
    using a by (simp add: takeWhile_tail)
  ultimately show ?thesis by (simp add: ReadBytes0_def)
qed

lemma ReadBytes0_no_zero: "0 \<notin> set b \<Longrightarrow> ReadBytes0 b = Inl EOF"
proof -
  assume "0 \<notin> set b"
  then have e: "dropWhile (\<lambda>x. x \<noteq> 0) b = []" by auto
  show ?thesis by (simp only: ReadBytes0_def e list.case)
qed

lemma ReadBytes0_Inr:
  assumes "ReadBytes0 b = Inr (raw, r)"
  obtains s where "0 \<notin> set s" and "b = s @ 0 # r" and "raw = s @ [0]"
proof -
  let ?P = "\<lambda>x::byte. x \<noteq> 0"
  from assms obtain z where d: "dropWhile ?P b = z # r" and raw: "raw = takeWhile ?P b @ [z]"
    by (auto simp: ReadBytes0_def split: list.splits)
  from d have ne: "dropWhile ?P b \<noteq> []" by simp
  from hd_dropWhile [OF ne] d have z: "z = 0" by simp
  have "b = takeWhile ?P b @ dropWhile ?P b" by simp
  with d z have b: "b = takeWhile ?P b @ 0 # r" by simp
  have "0 \<notin> set (takeWhile ?P b)" by (auto dest: set_takeWhileD)
  with b raw z that show ?thesis by blast
qed

lemma TrimRight0_terminated: "0 \<notin> set s \<Longrightarrow> TrimRight0 (s @ [0]) = s"
proof -
  assume z: "0 \<notin> set s"
  have "dropWhile (\<lambda>x. x = 0) (rev s) = rev s"
  proof (cases "rev s")
    case Nil then show ?thesis by simp
  next
    case (Cons x xs)
    then have "x \<in> set s" by (metis list.set_intros(1) set_rev)
    with z have "x \<noteq> 0" by auto
    with Cons show ?thesis by simp
  qed
  then show ?thesis by (simp add: TrimRight0_def)
qed

lemma parseString_more:
  "0 \<notin> set s \<Longrightarrow> y \<noteq> 0 \<Longrightarrow> parseString (s @ 0 # y # r) = Inr ((s, True), y # r)"
  by (simp add: parseString_def ReadBytes0_append TrimRight0_terminated Peek_def null_def)

lemma parseString_last:
  "0 \<notin> set s \<Longrightarrow> parseString (s @ 0 # 0 # r) = Inr ((s, False), r)"
  by (simp add: parseString_def ReadBytes0_append TrimRight0_terminated Peek_def null_def)

lemma parseString_unterminated: "0 \<notin> set b \<Longrightarrow> parseString b = Inl EOF"
  by (simp add: parseString_def ReadBytes0_no_zero)

lemma parseString_no_peek: "0 \<notin> set s \<Longrightarrow> parseString (s @ [0]) = Inl EOF"
  by (simp add: parseString_def ReadBytes0_append Peek_def)

lemma parseString_Inr:
  assumes "parseString b = Inr ((s, more'), r)"
  shows "0 \<notin> set s \<and>
     (if more' then b = s @ 0 # r \<and> r \<noteq> [] \<and> hd r \<noteq> 0 else b = s @ 0 # 0 # r)"
proof -
  from assms obtain raw r1 where rb: "ReadBytes0 b = Inr (raw, r1)"
    by (auto simp: parseString_def split: sum.splits)
  from rb obtain t where t: "0 \<notin> set t" "b = t @ 0 # r1" "raw = t @ [0]"
    by (rule ReadBytes0_Inr)
  from assms rb t have "r1 \<noteq> []"
    by (auto simp: parseString_def Peek_def split: if_splits)
  then obtain y r2 where r1: "r1 = y # r2" by (cases r1) auto
  from assms rb t r1 show ?thesis
    by (auto simp: parseString_def Peek_def null_def TrimRight0_terminated Let_def
        split: if_splits)
qed


lemma parseStrings_loop_step:
  "parseStrings_loop ss r =
     (case parseString r of
        Inl e \<Rightarrow> Inl e
      | Inr ((s, more'), r') \<Rightarrow>
          if \<not> more' then Inr (ss @ [s], r') else parseStrings_loop (ss @ [s]) r')"
  by (subst parseStrings_loop.simps) (rule refl)

lemma parseStrings_loop_frames:
  "parseStrings_loop ss b = Inr (ss', r) \<Longrightarrow>
     \<exists>c. b = c @ r \<and> 2 \<le> length c \<and> frames (parseStrings_loop ss) c ss'"
proof (induction ss b rule: parseStrings_loop.induct)
  case (1 ss b)
  from "1.prems" obtain s more' r1 where p: "parseString b = Inr ((s, more'), r1)"
    by (subst (asm) parseStrings_loop_step) (auto split: sum.splits)
  from parseString_Inr [OF p] have z: "0 \<notin> set s" by simp
  show ?case
  proof (cases more')
    case False
    with "1.prems" p have ss': "ss' = ss @ [s]" and r: "r1 = r"
      by (subst (asm) parseStrings_loop_step, simp)+
    from parseString_Inr [OF p] False r have b: "b = s @ 0 # 0 # r" by simp
    let ?c = "s @ [0, 0]"
    have "frames (parseStrings_loop ss) ?c ss'"
    proof (rule framesI)
      fix r' show "parseStrings_loop ss (?c @ r') = Inr (ss', r')"
        by (subst parseStrings_loop_step) (simp add: parseString_last [OF z] ss')
    next
      fix k assume k: "k < length ?c"
      have "parseString (take k ?c) = Inl EOF"
      proof (cases "k \<le> length s")
        case True
        then have "take k ?c = take k s" by simp
        moreover have "0 \<notin> set (take k s)" using z by (auto dest: in_set_takeD)
        ultimately show ?thesis by (simp add: parseString_unterminated)
      next
        case False
        with k have "k = Suc (length s)" by simp
        then have "take k ?c = s @ [0]" by simp
        then show ?thesis by (simp add: parseString_no_peek [OF z])
      qed
      then show "\<exists>e. io_error e \<and> parseStrings_loop ss (take k ?c) = Inl e"
        by (subst parseStrings_loop_step) (simp add: io_error_def)
    qed
    then show ?thesis using b by (intro exI [of _ ?c]) simp
  next
    case True
    with "1.prems" p have l: "parseStrings_loop (ss @ [s]) r1 = Inr (ss', r)"
      by (subst (asm) parseStrings_loop_step) simp
    from "1.IH" [OF p refl refl _ l] True obtain c1 where
      r1: "r1 = c1 @ r" and c1: "2 \<le> length c1"
      and f: "frames (parseStrings_loop (ss @ [s])) c1 ss'"
      by auto
    from parseString_Inr [OF p] True have b: "b = s @ 0 # r1" and h: "hd r1 \<noteq> 0" by simp_all
    from c1 obtain y c2 where c1e: "c1 = y # c2" by (cases c1) auto
    with h r1 have y: "y \<noteq> 0" by simp
    let ?c = "s @ 0 # c1"
    have "frames (parseStrings_loop ss) ?c ss'"
    proof (rule framesI)
      fix r'
      have "parseString (?c @ r') = Inr ((s, True), c1 @ r')"
        using parseString_more [OF z y, of "c2 @ r'"] by (simp add: c1e)
      then show "parseStrings_loop ss (?c @ r') = Inr (ss', r')"
        by (subst parseStrings_loop_step) (simp add: frames_extend [OF f])
    next
      fix k assume k: "k < length ?c"
      consider (a) "k \<le> length s" | (b) "k = Suc (length s)" | (c) "Suc (length s) < k"
        by linarith
      then show "\<exists>e. io_error e \<and> parseStrings_loop ss (take k ?c) = Inl e"
      proof cases
        case a
        then have "take k ?c = take k s" by simp
        moreover have "0 \<notin> set (take k s)" using z by (auto dest: in_set_takeD)
        ultimately have "parseString (take k ?c) = Inl EOF"
          by (simp add: parseString_unterminated)
        then show ?thesis by (subst parseStrings_loop_step) (simp add: io_error_def)
      next
        case b
        then have "take k ?c = s @ [0]" by simp
        then have "parseString (take k ?c) = Inl EOF" by (simp add: parseString_no_peek [OF z])
        then show ?thesis by (subst parseStrings_loop_step) (simp add: io_error_def)
      next
        case c
        define j where "j = k - Suc (length s)"
        from c k have j: "0 < j" "j < length c1" by (simp_all add: j_def)
        from c have t: "take k ?c = s @ 0 # take j c1" by (simp add: j_def take_Cons')
        from j obtain j' where j': "j = Suc j'" by (cases j) auto
        have tj: "take j c1 = y # take j' c2" by (simp add: c1e j')
        have "parseString (s @ 0 # take j c1) = Inr ((s, True), take j c1)"
          unfolding tj by (rule parseString_more [OF z y])
        then have "parseString (take k ?c) = Inr ((s, True), take j c1)"
          by (simp only: t)
        moreover from frames_truncate [OF f j(2)] obtain e where
          "io_error e" "parseStrings_loop (ss @ [s]) (take j c1) = Inl e" by blast
        ultimately show ?thesis by (subst parseStrings_loop_step) auto
      qed
    qed
    then show ?thesis using b r1 c1 by (intro exI [of _ ?c]) simp
  qed
qed

lemma parseStrings_frames:
  assumes "parseStrings b = Inr (ss, r)"
  shows "\<exists>c. b = c @ r \<and> 2 \<le> length c \<and> frames parseStrings c ss"
proof (cases "take 2 b = endStringSet")
  case True
  with assms have l: "2 \<le> length b" and ss: "ss = []" and r: "r = drop 2 b"
    by (auto simp: parseStrings_def Peek_def split: if_splits)
  have "frames parseStrings endStringSet ss"
  proof (rule framesI)
    fix r' show "parseStrings (endStringSet @ r') = Inr (ss, r')"
      by (simp add: parseStrings_def Peek_def endStringSet_def ss)
  next
    fix k assume "k < length endStringSet"
    then show "\<exists>e. io_error e \<and> parseStrings (take k endStringSet) = Inl e"
      by (simp add: parseStrings_def Peek_def endStringSet_def io_error_def)
  qed
  moreover have "b = endStringSet @ r" using True r by (metis append_take_drop_id)
  ultimately show ?thesis by (intro exI [of _ endStringSet]) (simp add: endStringSet_def)
next
  case False
  with assms have l: "parseStrings_loop [] b = Inr (ss, r)"
    by (auto simp: parseStrings_def Peek_def split: if_splits)
  from parseStrings_loop_frames [OF l] obtain c where
    b: "b = c @ r" and c: "2 \<le> length c"
    and f: "frames (parseStrings_loop []) c ss" by blast
  from False b c have t: "take 2 c \<noteq> endStringSet" by simp
  have "frames parseStrings c ss"
  proof (rule framesI)
    fix r' show "parseStrings (c @ r') = Inr (ss, r')"
      using c t frames_extend [OF f, of r'] by (simp add: parseStrings_def Peek_def)
  next
    fix k assume k: "k < length c"
    show "\<exists>e. io_error e \<and> parseStrings (take k c) = Inl e"
    proof (cases "k < 2")
      case True
      then show ?thesis using k by (simp add: parseStrings_def Peek_def io_error_def)
    next
      case False
      then have "take 2 (take k c) = take 2 c" by (simp add: min_def)
      with frames_truncate [OF f k] t False k show ?thesis
        by (simp add: parseStrings_def Peek_def)
    qed
  qed
  with b c show ?thesis by blast
qed


lemma Decoder_next_frames:
  assumes "Decoder_next behind d = Inr (s, d')"
  shows "\<exists>c. br d = c @ br d' \<and> c \<noteq> [] \<and> d' = d\<lparr>br := br d'\<rparr>
     \<and> (\<forall>r. Decoder_next behind (d\<lparr>br := c @ r\<rparr>) = Inr (s, d\<lparr>br := r\<rparr>))
     \<and> (\<forall>k<length c. \<exists>e. io_error e \<and> Decoder_next behind (d\<lparr>br := take k c\<rparr>) = Inl e)"
proof -
  from assms obtain h r1 fb r2 ss r3 ss' si where
    ph: "parseHeader (br d) = Inr (h, r1)" and
    pf: "parseFormatted r1 (int (unat (Header.Length h)) - int headerLen) = Inr (fb, r2)" and
    ps: "parseStrings r2 = Inr (ss, r3)" and
    i: "interpretStructure behind (Decoder.Version d) h fb ss = Inr (ss', si)" and
    s: "s = \<lparr> Header = h, Formatted = fb, Strings = ss', SystemInfo = si \<rparr>" and
    d': "d' = d\<lparr>br := r3\<rparr>"
    by (rule Decoder_next_Inr)
  let ?l = "int (unat (Header.Length h)) - int headerLen"
  from parseHeader_frames [OF ph] obtain c1 where
    b1: "br d = c1 @ r1" and l1: "length c1 = 4" and f1: "frames parseHeader c1 h" by blast
  from parseFormatted_frames [OF pf] have
    b2: "r1 = fb @ r2" and f2: "frames (\<lambda>b. parseFormatted b ?l) fb fb" by simp_all
  from parseStrings_frames [OF ps] obtain c3 where
    b3: "r2 = c3 @ r3" and l3: "2 \<le> length c3" and f3: "frames parseStrings c3 ss" by blast
  let ?c = "c1 @ fb @ c3"
  have ext: "Decoder_next behind (d\<lparr>br := ?c @ r\<rparr>) = Inr (s, d\<lparr>br := r\<rparr>)" for r
    using frames_extend [OF f1, of "fb @ c3 @ r"] frames_extend [OF f2, of "c3 @ r"]
      frames_extend [OF f3, of r] i s
    by (simp add: Decoder_next_def)
  have trunc: "\<exists>e. io_error e \<and> Decoder_next behind (d\<lparr>br := take k ?c\<rparr>) = Inl e"
    if k: "k < length ?c" for k
  proof -
    consider (a) "k < length c1"
      | (b) "length c1 \<le> k" "k - length c1 < length fb"
      | (c) "length c1 + length fb \<le> k"
      by linarith
    then show ?thesis
    proof cases
      case a
      then have "take k ?c = take k c1" by simp
      with frames_truncate [OF f1 a] show ?thesis
        by (auto simp: Decoder_next_def)
    next
      case b
      then have t: "take k ?c = c1 @ take (k - length c1) fb" by simp
      from frames_truncate [OF f2 b(2)] frames_extend [OF f1, of "take (k - length c1) fb"]
      show ?thesis unfolding t by (auto simp: Decoder_next_def)
    next
      case c
      define j where "j = k - length c1 - length fb"
      from c k have j: "j < length c3" by (simp add: j_def)
      from c have t: "take k ?c = c1 @ fb @ take j c3" by (simp add: j_def)
      from frames_truncate [OF f3 j] frames_extend [OF f1, of "fb @ take j c3"]
        frames_extend [OF f2, of "take j c3"]
      show ?thesis unfolding t by (auto simp: Decoder_next_def)
    qed
  qed
  have "br d = ?c @ br d'" using b1 b2 b3 d' by simp
  moreover have "?c \<noteq> []" using l1 by auto
  moreover have "d' = d\<lparr>br := br d'\<rparr>" using d' by simp
  ultimately show ?thesis using ext trunc by blast
qed


lemma Decode_loop_step:
  "Decode_loop mem d ss =
     (case Decoder_next (mem 0) d of
        Inl e \<Rightarrow> Inl e
      | Inr (s, d') \<Rightarrow>
          if Header.Type (Header s) = typeEndOfTable then Inr (ss @ [s], d')
          else Decode_loop (\<lambda>k. mem (Suc k)) d' (ss @ [s]))"
  by (subst Decode_loop.simps) (rule refl)

lemma decoded_from_Cons:
  assumes "c \<noteq> []"
    and "\<And>r. Decoder_next (mem 0) (d\<lparr>br := c @ r\<rparr>) = Inr (s, d\<lparr>br := r\<rparr>)"
    and "decoded_from (\<lambda>k. mem (Suc k)) d cs new"
  shows "decoded_from mem d (c # cs) (s # new)"
  unfolding decoded_from_def
proof (intro conjI allI impI)
  show "length (c # cs) = length (s # new)" using assms(3) by (simp add: decoded_from_def)
next
  fix i assume "i < length (s # new)"
  then show "(c # cs) ! i \<noteq> []" using assms by (cases i) (auto simp: decoded_from_def)
next
  fix i r assume "i < length (s # new)"
  then show "Decoder_next (mem i) (d\<lparr>br := (c # cs) ! i @ r\<rparr>)
      = Inr ((s # new) ! i, d\<lparr>br := r\<rparr>)"
    using assms by (cases i) (auto simp: decoded_from_def)
qed

lemma Decode_loop_frames:
  "Decode_loop mem d acc = Inr (ss, d') \<Longrightarrow>
     \<exists>new cs. ss = acc @ new \<and> new \<noteq> [] \<and> br d = concat cs @ br d'
       \<and> d' = d\<lparr>br := br d'\<rparr>
       \<and> Header.Type (Header (last new)) = typeEndOfTable
       \<and> (\<forall>s \<in> set (butlast new). Header.Type (Header s) \<noteq> typeEndOfTable)
       \<and> decoded_from mem d cs new
       \<and> (\<forall>r acc'. Decode_loop mem (d\<lparr>br := concat cs @ r\<rparr>) acc'
             = Inr (acc' @ new, d\<lparr>br := r\<rparr>))
       \<and> (\<forall>k<length (concat cs). \<forall>acc'. \<exists>e. io_error e
             \<and> Decode_loop mem (d\<lparr>br := take k (concat cs)\<rparr>) acc' = Inl e)"
proof (induction mem d acc arbitrary: ss d' rule: Decode_loop.induct)
  case (1 mem d acc)
  let ?mem' = "\<lambda>k. mem (Suc k)"
  from "1.prems" obtain s d1 where n: "Decoder_next (mem 0) d = Inr (s, d1)"
    by (subst (asm) Decode_loop_step) (auto split: sum.splits)
  from Decoder_next_frames [OF n] obtain c where
    b: "br d = c @ br d1" and c: "c \<noteq> []" and d1: "d1 = d\<lparr>br := br d1\<rparr>"
    and ext: "\<And>r. Decoder_next (mem 0) (d\<lparr>br := c @ r\<rparr>) = Inr (s, d\<lparr>br := r\<rparr>)"
    and trunc: "\<And>k. k < length c \<Longrightarrow>
        \<exists>e. io_error e \<and> Decoder_next (mem 0) (d\<lparr>br := take k c\<rparr>) = Inl e"
    by blast
  show ?case
  proof (cases "Header.Type (Header s) = typeEndOfTable")
    case True
    with "1.prems" n have ss: "ss = acc @ [s]" and d': "d' = d1"
      by (subst (asm) Decode_loop_step, simp)+
    have e: "Decode_loop mem (d\<lparr>br := concat [c] @ r\<rparr>) acc' = Inr (acc' @ [s], d\<lparr>br := r\<rparr>)"
      for r acc'
      by (subst Decode_loop_step) (simp add: ext True)
    have t: "\<exists>e. io_error e \<and> Decode_loop mem (d\<lparr>br := take k (concat [c])\<rparr>) acc' = Inl e"
      if "k < length (concat [c])" for k acc'
    proof -
      from that trunc [of k] obtain e where "io_error e"
        "Decoder_next (mem 0) (d\<lparr>br := take k c\<rparr>) = Inl e" by auto
      then show ?thesis by (subst Decode_loop_step) auto
    qed
    have df: "decoded_from mem d [c] [s]"
      using c ext by (simp add: decoded_from_def)
    show ?thesis
      apply (rule exI [of _ "[s]"], rule exI [of _ "[c]"])
      using ss d' b d1 True df e t by simp
  next
    case False
    with "1.prems" n have l: "Decode_loop ?mem' d1 (acc @ [s]) = Inr (ss, d')"
      by (subst (asm) Decode_loop_step) simp
    from "1.IH" [OF n refl False l] obtain new1 cs1 where
      ss: "ss = (acc @ [s]) @ new1" and ne: "new1 \<noteq> []"
      and b1: "br d1 = concat cs1 @ br d'" and d': "d' = d1\<lparr>br := br d'\<rparr>"
      and last1: "Header.Type (Header (last new1)) = typeEndOfTable"
      and but1: "\<forall>s \<in> set (butlast new1). Header.Type (Header s) \<noteq> typeEndOfTable"
      and df1: "decoded_from ?mem' d1 cs1 new1"
      and ext1: "\<And>r acc'. Decode_loop ?mem' (d1\<lparr>br := concat cs1 @ r\<rparr>) acc'
                   = Inr (acc' @ new1, d1\<lparr>br := r\<rparr>)"
      and trunc1: "\<And>k acc'. k < length (concat cs1) \<Longrightarrow>
                   \<exists>e. io_error e
                     \<and> Decode_loop ?mem' (d1\<lparr>br := take k (concat cs1)\<rparr>) acc' = Inl e"
      by blast
    have upd: "d1\<lparr>br := x\<rparr> = d\<lparr>br := x\<rparr>" for x
      by (subst d1) simp
    have df: "decoded_from mem d (c # cs1) (s # new1)"
      using df1 by (intro decoded_from_Cons c ext) (simp add: decoded_from_def upd)
    have e: "Decode_loop mem (d\<lparr>br := concat (c # cs1) @ r\<rparr>) acc'
        = Inr (acc' @ s # new1, d\<lparr>br := r\<rparr>)" for r acc'
      using ext [of "concat cs1 @ r"] ext1 [of r "acc' @ [s]"] False
      by (subst Decode_loop_step) (simp add: upd)
    have t: "\<exists>e. io_error e
        \<and> Decode_loop mem (d\<lparr>br := take k (concat (c # cs1))\<rparr>) acc' = Inl e"
      if k: "k < length (concat (c # cs1))" for k acc'
    proof (cases "k < length c")
      case True
      from trunc [OF True] obtain e where "io_error e"
        "Decoder_next (mem 0) (d\<lparr>br := take k c\<rparr>) = Inl e" by auto
      with True show ?thesis by (subst Decode_loop_step) auto
    next
      case nlt: False
      define j where "j = k - length c"
      from nlt k have j: "j < length (concat cs1)" by (simp add: j_def)
      from nlt have tk: "take k (concat (c # cs1)) = c @ take j (concat cs1)"
        by (simp add: j_def)
      from trunc1 [OF j, of "acc' @ [s]"] obtain e where "io_error e"
        "Decode_loop ?mem' (d\<lparr>br := take j (concat cs1)\<rparr>) (acc' @ [s]) = Inl e"
        by (auto simp: upd)
      with ext [of "take j (concat cs1)"] False show ?thesis
        unfolding tk by (subst Decode_loop_step) auto
    qed
    have bu: "\<forall>x \<in> set (butlast (s # new1)). Header.Type (Header x) \<noteq> typeEndOfTable"
      using but1 False ne by simp
    show ?thesis
      apply (rule exI [of _ "s # new1"], rule exI [of _ "c # cs1"])
      using ss ne b b1 d' upd last1 bu df e t by simp
  qed
qed

text \<open>
  When \<open>Decode\<close> returns structures, it returns them from its last line, after the
  structure with type 127 has been appended: \<open>ss\<close> is not empty, its last structure has
  type 127 and no earlier one has; the consumed bytes are consecutive chunks of the
  stream, one per structure, and structure \<open>i\<close> is what \<open>next\<close> decodes from chunk \<open>i\<close>,
  so the order is the stream's; the result and the bytes left over are the same whatever
  follows the end-of-table record, so nothing but that record stops the decoder; and the
  same stream cut anywhere before the end of that record makes \<open>Decode\<close> return \<open>EOF\<close>
  or \<open>ErrUnexpectedEOF\<close>.
\<close>

lemma Decode_returns_up_to_end_of_table:
  assumes "Decode mem d = Inr (ss, d')"
  shows "ss \<noteq> []
     \<and> Header.Type (Header (last ss)) = typeEndOfTable
     \<and> (\<forall>s \<in> set (butlast ss). Header.Type (Header s) \<noteq> typeEndOfTable)
     \<and> (\<exists>cs. br d = concat cs @ br d'
           \<and> decoded_from mem d cs ss
           \<and> (\<forall>r. Decode mem (d\<lparr>br := concat cs @ r\<rparr>) = Inr (ss, d\<lparr>br := r\<rparr>))
           \<and> (\<forall>k<length (concat cs). \<exists>e. io_error e
                 \<and> Decode mem (d\<lparr>br := take k (br d)\<rparr>) = Inl e))"
proof -
  from assms have "Decode_loop mem d [] = Inr (ss, d')" by (simp add: Decode_def)
  from Decode_loop_frames [OF this] obtain cs where
    ne: "ss \<noteq> []" and b: "br d = concat cs @ br d'"
    and l: "Header.Type (Header (last ss)) = typeEndOfTable"
    and bu: "\<forall>s \<in> set (butlast ss). Header.Type (Header s) \<noteq> typeEndOfTable"
    and df: "decoded_from mem d cs ss"
    and ext: "\<And>r acc'. Decode_loop mem (d\<lparr>br := concat cs @ r\<rparr>) acc'
        = Inr (acc' @ ss, d\<lparr>br := r\<rparr>)"
    and trunc: "\<And>k acc'. k < length (concat cs) \<Longrightarrow>
        \<exists>e. io_error e \<and> Decode_loop mem (d\<lparr>br := take k (concat cs)\<rparr>) acc' = Inl e"
    by auto
  have e: "Decode mem (d\<lparr>br := concat cs @ r\<rparr>) = Inr (ss, d\<lparr>br := r\<rparr>)" for r
    using ext [of r "[]"] by (simp add: Decode_def)
  have t: "\<exists>e. io_error e \<and> Decode mem (d\<lparr>br := take k (br d)\<rparr>) = Inl e"
    if "k < length (concat cs)" for k
  proof -
    from that have "take k (br d) = take k (concat cs)" by (simp add: b)
    with trunc [OF that, of "[]"] show ?thesis by (simp add: Decode_def)
  qed
  from ne l bu b df e t show ?thesis by blast
qed

text \<open>The table of three records, the same followed by two more bytes, and its first 20 bytes.\<close>

lemma NewDecoder_br: "(NewDecoder b)\<lparr>br := x\<rparr> = NewDecoder x"
  by (simp add: NewDecoder_def)

lemma Decode_three_record_table:
  "(\<exists>ss d'. Decode mem (NewDecoder three_record_table) = Inr (ss, d')
      \<and> map (Header.Type \<circ> Header) ss = [5, 6, 127]
      \<and> ss \<noteq> [] \<and> Header.Type (Header (last ss)) = typeEndOfTable
      \<and> br d' = []
      \<and> Decode mem (NewDecoder (three_record_table @ [0xAA, 0xBB]))
          = Inr (ss, NewDecoder [0xAA, 0xBB]))
   \<and> (\<exists>e. io_error e \<and> Decode mem (NewDecoder (take 20 three_record_table)) = Inl e)"
proof -
  let ?d = "NewDecoder three_record_table"
  let ?ss = "fst (projr (Decode mem ?d))"
  let ?d' = "snd (projr (Decode mem ?d))"
  have e: "Decode mem ?d = Inr (?ss, ?d')" by code_simp
  have m: "map (Header.Type \<circ> Header) ?ss = [5, 6, 127]" by code_simp
  have r: "br ?d' = []" by code_simp
  have l: "20 < length three_record_table" by code_simp
  from Decode_returns_up_to_end_of_table [OF e] obtain cs where
    ne: "?ss \<noteq> []" and la: "Header.Type (Header (last ?ss)) = typeEndOfTable"
    and b: "br ?d = concat cs @ br ?d'"
    and ext: "\<And>r. Decode mem (?d\<lparr>br := concat cs @ r\<rparr>) = Inr (?ss, ?d\<lparr>br := r\<rparr>)"
    and trunc: "\<And>k. k < length (concat cs) \<Longrightarrow>
        \<exists>e. io_error e \<and> Decode mem (?d\<lparr>br := take k (br ?d)\<rparr>) = Inl e"
    by blast
  from b r have c: "concat cs = three_record_table" by (simp add: NewDecoder_def)
  from ext [of "[0xAA, 0xBB]"]
  have x: "Decode mem (NewDecoder (three_record_table @ [0xAA, 0xBB]))
      = Inr (?ss, NewDecoder [0xAA, 0xBB])"
    by (simp only: c NewDecoder_br)
  from trunc [of 20] l
  have t: "\<exists>e. io_error e \<and> Decode mem (NewDecoder (take 20 three_record_table)) = Inl e"
    unfolding c NewDecoder_br by (simp add: NewDecoder_def)
  from e m ne la r x have w: "\<exists>ss d'. Decode mem ?d = Inr (ss, d')
      \<and> map (Header.Type \<circ> Header) ss = [5, 6, 127]
      \<and> ss \<noteq> [] \<and> Header.Type (Header (last ss)) = typeEndOfTable
      \<and> br d' = []
      \<and> Decode mem (NewDecoder (three_record_table @ [0xAA, 0xBB]))
          = Inr (ss, NewDecoder [0xAA, 0xBB])"
    by (intro exI [of _ ?ss] exI [of _ ?d']) (intro conjI)
  from w t show ?thesis by (rule conjI)
qed


text \<open>
  When \<open>Decode\<close> does not return structures, the call ends in one of two ways: a
  reader's error, \<open>EOF\<close> or \<open>ErrUnexpectedEOF\<close>, returned with \<open>nil\<close> for the
  structures, or an index-out-of-range panic raised in \<open>next\<close> while it interprets a
  record of a recognized type.
\<close>

lemma andThen_InlE:
  assumes "andThen m f = Inl e"
  obtains "m = Inl e" | x where "m = Inr x" and "f x = Inl e"
  using assms by (cases m) simp_all

lemma index_Inl: "index xs i = Inl e \<Longrightarrow> e = PanicIndexOutOfRange"
  by (simp add: index_def split: if_splits)

lemma addressOfFirst_Inl: "addressOfFirst fb = Inl e \<Longrightarrow> e = PanicIndexOutOfRange"
  by (simp add: addressOfFirst_def split: if_splits)

lemma interpretSystem_Inl:
  "interpretSystem behind h fb ss si = Inl e \<Longrightarrow> e = PanicIndexOutOfRange"
  unfolding interpretSystem_def Let_def split_beta
  by (auto elim!: andThen_InlE dest: index_Inl addressOfFirst_Inl split: if_splits)

lemma interpretBaseboard_Inl:
  "interpretBaseboard behind fb ss si = Inl e \<Longrightarrow> e = PanicIndexOutOfRange"
  unfolding interpretBaseboard_def Let_def split_beta
  by (auto elim!: andThen_InlE dest: index_Inl addressOfFirst_Inl split: if_splits)

lemma interpretEnclosure_Inl:
  "interpretEnclosure behind fb si = Inl e \<Longrightarrow> e = PanicIndexOutOfRange"
  unfolding interpretEnclosure_def Let_def
  by (auto elim!: andThen_InlE dest: addressOfFirst_Inl)

lemma interpretProcessor_Inl:
  "interpretProcessor behind v fb ss si = Inl e \<Longrightarrow> e = PanicIndexOutOfRange"
  unfolding interpretProcessor_def processorProductStep_def Let_def split_beta
  by (auto elim!: andThen_InlE dest: index_Inl addressOfFirst_Inl split: if_splits)

lemma interpretMemory_Inl:
  "interpretMemory fb ss si = Inl e \<Longrightarrow> e = PanicIndexOutOfRange"
  unfolding interpretMemory_def memoryManufacturerStep_def memorySerialStep_def
    memorySizeStep_def Let_def split_beta
  by (auto elim!: andThen_InlE dest: index_Inl split: if_splits)

lemma interpretBIOS_Inl:
  "interpretBIOS behind v fb ss si = Inl e \<Longrightarrow> e = PanicIndexOutOfRange"
  unfolding interpretBIOS_def Let_def split_beta
  by (auto elim!: andThen_InlE dest: index_Inl addressOfFirst_Inl split: if_splits)

lemma interpretStructure_Inl:
  "interpretStructure behind v h fb ss = Inl e \<Longrightarrow> e = PanicIndexOutOfRange"
  unfolding interpretStructure_def Let_def split_beta
  by (auto elim!: andThen_InlE
      dest: interpretSystem_Inl interpretBaseboard_Inl interpretEnclosure_Inl
        interpretProcessor_Inl interpretMemory_Inl interpretBIOS_Inl
      split: if_splits)

lemma ReadFull_Inl: "ReadFull r n = Inl e \<Longrightarrow> io_error e"
  by (auto simp: ReadFull_def io_error_def split: if_splits)

lemma parseHeader_Inl: "parseHeader r = Inl e \<Longrightarrow> io_error e"
  by (auto simp: parseHeader_def split: sum.splits dest: ReadFull_Inl)

lemma parseFormatted_Inl: "parseFormatted r l = Inl e \<Longrightarrow> io_error e"
  by (auto simp: parseFormatted_def io_error_def split: if_splits dest: ReadFull_Inl)

lemma parseString_Inl: "parseString r = Inl e \<Longrightarrow> io_error e"
  by (auto simp: parseString_def ReadBytes0_def Peek_def Let_def io_error_def
      split: sum.splits list.splits if_splits)

lemma parseStrings_loop_Inl: "parseStrings_loop ss r = Inl e \<Longrightarrow> io_error e"
proof (induction ss r rule: parseStrings_loop.induct)
  case (1 ss r)
  show ?case
  proof (cases "parseString r")
    case (Inl e')
    with "1.prems" have "e' = e" by (subst (asm) parseStrings_loop.simps) simp
    with Inl show ?thesis by (auto dest: parseString_Inl)
  next
    case (Inr x)
    then obtain s more' r' where p: "parseString r = Inr ((s, more'), r')"
      by (cases x) auto
    with "1.prems" have m: "more'" and l: "parseStrings_loop (ss @ [s]) r' = Inl e"
      by (subst (asm) parseStrings_loop.simps, simp split: if_splits)+
    from "1.IH" [OF p refl refl _ l] m show ?thesis by simp
  qed
qed

lemma parseStrings_Inl: "parseStrings r = Inl e \<Longrightarrow> io_error e"
  by (auto simp: parseStrings_def Peek_def io_error_def split: if_splits
      dest: parseStrings_loop_Inl)

lemma Decoder_next_Inl:
  "Decoder_next behind d = Inl e \<Longrightarrow> io_error e \<or> e = PanicIndexOutOfRange"
  by (auto simp: Decoder_next_def Let_def split: sum.splits prod.splits
      dest: parseHeader_Inl parseFormatted_Inl parseStrings_Inl interpretStructure_Inl)

lemma Decode_loop_Inl:
  "Decode_loop mem d acc = Inl e \<Longrightarrow> io_error e \<or> e = PanicIndexOutOfRange"
proof (induction mem d acc rule: Decode_loop.induct)
  case (1 mem d acc)
  show ?case
  proof (cases "Decoder_next (mem 0) d")
    case (Inl e')
    with "1.prems" have "e' = e" by (subst (asm) Decode_loop.simps) simp
    with Inl show ?thesis by (auto dest: Decoder_next_Inl)
  next
    case (Inr x)
    then obtain s d1 where n: "Decoder_next (mem 0) d = Inr (s, d1)" by (cases x) auto
    with "1.prems" have t: "Header.Type (Header s) \<noteq> typeEndOfTable"
      and l: "Decode_loop (\<lambda>k. mem (Suc k)) d1 (acc @ [s]) = Inl e"
      by (subst (asm) Decode_loop.simps, simp split: if_splits)+
    from "1.IH" [OF n refl t l] show ?thesis .
  qed
qed

lemma Decode_fails_with_error_or_panic:
  "Decode mem d = Inl e \<Longrightarrow> io_error e \<or> e = PanicIndexOutOfRange"
  by (simp add: Decode_def Decode_loop_Inl)

text \<open>
  Claim C2 at the inputs of \<open>TestDecoder\<close>'s cases "no end of table" and "bad second
  message", two streams in which no byte is 127 and so no end-of-table record occurs,
  and at a record of the uninterpreted type 5 followed by the first input. The claim has
  \<open>Decode\<close> return an error on a stream that ends before an end-of-table record. On
  each of the three streams \<open>Decode\<close> returns nothing: \<open>next\<close> panics with an index
  out of range, at \<open>&fb[0]\<close> on the empty block of the system record, or at
  \<open>ss[sysInfo.ProductName-1]\<close> for the reference \<open>0xAD\<close> over two strings, and nothing
  recovers; on the third, after a first structure has been decoded. The six bytes of the
  first input with type 5 in place of type 1 give the error \<open>EOF\<close>, as the claim says.
\<close>

theorem Decode_panics_before_end_of_table:
  "Decode mem (NewDecoder (empty_record 1)) = Inl PanicIndexOutOfRange
   \<and> Decode mem (NewDecoder bad_second_message) = Inl PanicIndexOutOfRange
   \<and> Decode mem (NewDecoder (empty_record 5 @ empty_record 1)) = Inl PanicIndexOutOfRange
   \<and> map_sum id (Header.Type \<circ> Header \<circ> fst)
         (Decoder_next (mem 0) (NewDecoder (empty_record 5 @ empty_record 1))) = Inr 5
   \<and> Decode mem (NewDecoder (empty_record 5)) = Inl EOF
   \<and> typeEndOfTable \<notin> set (empty_record 1)
   \<and> typeEndOfTable \<notin> set bad_second_message"
  by code_simp

section \<open>The opaque stream delegates\<close>

text \<open>
  Claim C10. When \<open>Stream\<close> succeeds, the value it returns wraps the platform's stream:
  its \<open>Read\<close> and its \<open>Close\<close> are the wrapped stream's, so every call returns the
  wrapped call's result and leaves the wrapped stream's state, and any sequence of reads
  through it yields the same bytes and errors as through the platform stream.
\<close>

theorem Stream_delegates:
  assumes "Stream platform_stream = Inr (orc, ep)"
  shows "\<exists>rc'. platform_stream = Inr (rc', ep)
     \<and> opaqueReadCloser_Read orc = Read rc'
     \<and> opaqueReadCloser_Close orc = Close rc'
     \<and> (\<forall>ns s. read_sequence (opaqueReadCloser_Read orc) ns s = read_sequence (Read rc') ns s)"
proof -
  from assms obtain rc' where p: "platform_stream = Inr (rc', ep)" and o: "orc = \<lparr> rc = rc' \<rparr>"
    by (auto simp: Stream_def split: sum.splits)
  have r: "opaqueReadCloser_Read orc = Read rc'"
    by (rule ext) (simp add: opaqueReadCloser_Read_def o)
  have c: "opaqueReadCloser_Close orc = Close rc'"
    by (simp add: opaqueReadCloser_Close_def o)
  from p r c show ?thesis by simp
qed

theorem Stream_delegates_witness:
  "(\<exists>orc. Stream (Inr (bytesReader, ())) = Inr (orc, ())
      \<and> opaqueReadCloser_Read orc = Read bytesReader
      \<and> read_sequence (opaqueReadCloser_Read orc) [4, 4, 4] [1, 2, 3, 4, 5, 6]
          = ([([1, 2, 3, 4], None), ([5, 6], None), ([], Some EOF)], [])
      \<and> opaqueReadCloser_Close orc [5, 6] = (None, [5, 6]))"
proof -
  let ?orc = "\<lparr> rc = bytesReader \<rparr>"
  have s: "Stream (Inr (bytesReader, ())) = Inr (?orc, ())" by (simp add: Stream_def)
  from Stream_delegates [OF s]
  have r: "opaqueReadCloser_Read ?orc = Read bytesReader"
    and c: "opaqueReadCloser_Close ?orc = Close bytesReader" by auto
  have q: "read_sequence (Read bytesReader) [4, 4, 4] [1, 2, 3, 4, 5, 6]
      = ([([1, 2, 3, 4], None), ([5, 6], None), ([], Some EOF)], [])"
    by (simp add: bytesReader_def)
  have cl: "Close bytesReader [5, 6] = (None, [5, 6])" by (simp add: bytesReader_def)
  show ?thesis
    by (rule exI [of _ ?orc]) (simp only: s r c q cl simp_thms)
qed

section \<open>Memory device: the reported size in general\<close>

text \<open>
  For every memory-device structure that \<open>Decoder.next\<close> returns, the formatted block
  has at least ten bytes and the projection reports \<open>reported_size_of_code\<close>, leaving
  the module out when that is 0. With at least 17 formatted bytes this is
  \<open>reported_size_as_claimed\<close> whenever bit 15 of the size field is clear, which covers
  the extended size; whenever bit 15 is set it is the unmasked field times 1024 and
  differs from \<open>reported_size_as_claimed\<close>.
\<close>

lemma byte_and_0x80: "(b :: byte) AND 0x80 = 0 \<longleftrightarrow> \<not> bit b 7"
proof -
  have "(0x80 :: byte) = 2 ^ 7" by simp
  then show ?thesis by (simp only: and_exp_eq_0_iff_not_bit)
qed

lemma bit_15_Uint16: "2 \<le> length xs \<Longrightarrow> bit (Uint16 xs) 15 \<longleftrightarrow> bit (xs ! 1) 7"
  by (auto simp: Uint16_def bit_or_iff bit_push_bit_iff bit_ucast_iff
      dest: bit_imp_le_length)

lemma slice_nth: "i + n \<le> length xs \<Longrightarrow> k < n \<Longrightarrow> slice xs i (i + n) ! k = xs ! (i + k)"
  by (simp add: slice_def)

lemma size_bit_15:
  assumes "10 \<le> length fb"
  shows "fb ! 9 AND 0x80 = 0 \<longleftrightarrow> \<not> bit (Uint16 (slice fb 8 10)) 15"
proof -
  have "slice fb 8 10 ! 1 = fb ! 9" using assms slice_nth [of 8 2 fb 1] by simp
  moreover have "2 \<le> length (slice fb 8 10)" using assms by (simp add: slice_def)
  ultimately show ?thesis by (simp add: byte_and_0x80 bit_15_Uint16)
qed

lemma readMemoryInfo_Size:
  "Size (readMemoryInfo fb) = (if 17 \<le> length fb then Uint16 (slice fb 8 10) else 0)"
  by (simp add: readMemoryInfo_def Let_def MemoryInfoRead_zero_def sizeAsPer2_1_def
      sizeAsPer2_3_def sizeAsPer2_6_def sizeAsPer2_7_def sizeAsPer2_8_def)

lemma readMemoryInfo_ExtendedSize:
  "ExtendedSize (readMemoryInfo fb) = (if 30 \<le> length fb then Uint32 (slice fb 24 28) else 0)"
  by (simp add: readMemoryInfo_def Let_def MemoryInfoRead_zero_def sizeAsPer2_1_def
      sizeAsPer2_3_def sizeAsPer2_6_def sizeAsPer2_7_def sizeAsPer2_8_def)

lemma memoryManufacturerStep_size:
  "memoryManufacturerStep ss m p = Inr p' \<Longrightarrow> SizeInBytes p' = SizeInBytes p"
  by (auto simp: memoryManufacturerStep_def Let_def elim!: andThen_InrE split: if_splits)

lemma memorySerialStep_size:
  "memorySerialStep ss m p si = Inr (p', si') \<Longrightarrow> PhyMemory si' = PhyMemory si"
  by (auto simp: memorySerialStep_def Let_def elim!: andThen_InrE split: if_splits)

lemma memoryWidthStep_size: "SizeInBytes (memoryWidthStep m p) = SizeInBytes p"
  by (simp add: memoryWidthStep_def Let_def)

lemma memorySizeStep_size:
  assumes "memorySizeStep fb (readMemoryInfo fb) p = Inr p'"
  shows "10 \<le> length fb \<and> SizeInBytes p' = reported_size_of_code fb"
proof -
  from assms have l: "10 \<le> length fb"
    by (auto simp: memorySizeStep_def Let_def index_def elim!: andThen_InrE split: if_splits)
  from assms l have "SizeInBytes p' = reported_size_of_code fb"
    by (auto simp: memorySizeStep_def Let_def index_def reported_size_of_code_def
        readMemoryInfo_Size readMemoryInfo_ExtendedSize size_bit_15 [OF l]
        extendedSizeThreyshold_def sizeAsPer2_7_def mbToByteConvRatio_def
        kbToByteConvRatio_def elim!: andThen_InrE split: if_splits)
  with l show ?thesis by simp
qed

lemma interpretMemory_size:
  assumes "interpretMemory fb ss si0 = Inr si"
  shows "10 \<le> length fb \<and>
     map SizeInBytes (PhyMemory si) = map SizeInBytes (PhyMemory si0) @
       (if reported_size_of_code fb \<noteq> 0 then [reported_size_of_code fb] else [])"
proof -
  from assms obtain p1 p2 si1 p3 where
    s1: "memoryManufacturerStep ss (readMemoryInfo fb) PhysicalMemory_zero = Inr p1" and
    s2: "memorySerialStep ss (readMemoryInfo fb) p1 si0 = Inr (p2, si1)" and
    s3: "memorySizeStep fb (readMemoryInfo fb) p2 = Inr p3" and
    si: "si = (if SizeInBytes (memoryWidthStep (readMemoryInfo fb) p3) \<noteq> 0
           then si1\<lparr>PhyMemory := PhyMemory si1 @ [memoryWidthStep (readMemoryInfo fb) p3]\<rparr>
           else si1)"
    unfolding interpretMemory_def Let_def by (auto elim!: andThen_InrE)
  from memorySizeStep_size [OF s3] memorySerialStep_size [OF s2] si
  show ?thesis by (simp add: memoryWidthStep_size)
qed


lemma and_0x7FFF: "\<not> bit (w :: 16 word) 15 \<Longrightarrow> w AND 0x7FFF = w"
proof -
  assume b: "\<not> bit w 15"
  have m: "(0x7FFF :: 16 word) = mask 15" by (simp add: mask_eq_exp_minus_1)
  show ?thesis
    unfolding m
  proof (rule bit_word_eqI)
    fix n assume "n < LENGTH(16)"
    then have "n < 15 \<or> n = 15" by auto
    with b show "bit (w AND mask 15) n = bit w n"
      by (auto simp: bit_and_iff bit_mask_iff)
  qed
qed

lemma and_0x7FFF_neq: "bit (w :: 16 word) 15 \<Longrightarrow> w AND 0x7FFF \<noteq> w"
proof
  assume b: "bit w 15" and e: "w AND 0x7FFF = w"
  have m: "(0x7FFF :: 16 word) = mask 15" by (simp add: mask_eq_exp_minus_1)
  from e have "bit (w AND mask 15) 15 = bit w 15" by (simp add: m)
  with b show False by (simp add: bit_and_iff bit_mask_iff)
qed

lemma ucast_times_1024_inject:
  "(ucast (a :: 16 word) :: 64 word) * 1024 = ucast (b :: 16 word) * 1024 \<Longrightarrow> a = b"
proof -
  assume e: "(ucast a :: 64 word) * 1024 = ucast b * 1024"
  have u: "unat ((ucast x :: 64 word) * 1024) = unat x * 1024" for x :: "16 word"
  proof -
    have b: "unat x < 2 ^ 16" using unsigned_less [of x, where 'a = nat] by simp
    then have "unat x < 2 ^ 64" by simp
    then have c: "unat (ucast x :: 64 word) = unat x"
      by (simp add: unsigned_ucast_eq take_bit_nat_eq_self)
    have "unat (ucast x :: 64 word) * unat (1024 :: 64 word) < 2 ^ LENGTH(64)"
      using b by (simp add: c)
    then have "unat ((ucast x :: 64 word) * 1024) = unat (ucast x :: 64 word) * unat (1024 :: 64 word)"
      by (rule unat_mult_lem [THEN iffD1])
    then show ?thesis by (simp add: c)
  qed
  from e have "unat ((ucast a :: 64 word) * 1024) = unat ((ucast b :: 64 word) * 1024)" by simp
  then have "unat a = unat b" by (simp add: u)
  then show ?thesis by (rule word_unat_eq_iff [THEN iffD2])
qed

lemma reported_size_of_code_as_claimed:
  assumes "17 \<le> length fb" and "\<not> bit (Uint16 (slice fb 8 10)) 15"
  shows "reported_size_of_code fb
     = reported_size_as_claimed (Uint16 (slice fb 8 10)) (Uint32 (slice fb 24 28)) (length fb)"
  using assms
  by (simp add: reported_size_of_code_def reported_size_as_claimed_def and_0x7FFF Let_def)

lemma reported_size_of_code_kilobytes:
  assumes "17 \<le> length fb" and "bit (Uint16 (slice fb 8 10)) 15"
  shows "reported_size_of_code fb = ucast (Uint16 (slice fb 8 10)) * 1024
     \<and> reported_size_of_code fb \<noteq> 0
     \<and> reported_size_of_code fb
       \<noteq> reported_size_as_claimed (Uint16 (slice fb 8 10)) (Uint32 (slice fb 24 28)) (length fb)"
proof -
  let ?s = "Uint16 (slice fb 8 10)"
  from assms(2) have n: "?s \<noteq> 0x7FFF" by auto
  have c: "reported_size_of_code fb = ucast ?s * 1024"
    using assms n by (simp add: reported_size_of_code_def Let_def)
  have cl: "reported_size_as_claimed ?s (Uint32 (slice fb 24 28)) (length fb)
      = ucast (?s AND 0x7FFF) * 1024"
    using assms n by (simp add: reported_size_as_claimed_def)
  have "(ucast ?s :: 64 word) * 1024 \<noteq> ucast (?s AND 0x7FFF) * 1024"
    using and_0x7FFF_neq [OF assms(2)] by (auto dest: ucast_times_1024_inject)
  moreover have "(ucast ?s :: 64 word) * 1024 \<noteq> 0"
  proof
    assume "(ucast ?s :: 64 word) * 1024 = 0"
    then have "(ucast ?s :: 64 word) * 1024 = ucast (0 :: 16 word) * 1024" by simp
    then have "?s = 0" by (rule ucast_times_1024_inject)
    with assms(2) show False by simp
  qed
  ultimately show ?thesis by (simp add: c cl)
qed

lemma interpretStructure_memory:
  assumes "interpretStructure behind v h fb ss = Inr (ss', si)" and "Header.Type h = 17"
  shows "ss' = ss \<and> interpretMemory fb ss SystemInfo_zero = Inr si"
  using assms by (auto simp: interpretStructure_def Let_def elim!: andThen_InrE)

lemma memory_device_reported_size:
  assumes "Decoder_next behind d = Inr (s, d')" and "Header.Type (Header s) = 17"
  shows "10 \<le> length (Formatted s) \<and>
     map SizeInBytes (PhyMemory (SystemInfo s)) =
       (if reported_size_of_code (Formatted s) \<noteq> 0
        then [reported_size_of_code (Formatted s)] else [])"
proof -
  from assms(1) obtain h r1 fb r2 ss r3 ss' si where
    i: "interpretStructure behind (Decoder.Version d) h fb ss = Inr (ss', si)" and
    s: "s = \<lparr> Header = h, Formatted = fb, Strings = ss', SystemInfo = si \<rparr>"
    by (rule Decoder_next_Inr)
  from assms(2) s have "Header.Type h = 17" by simp
  from interpretStructure_memory [OF i this]
  have "interpretMemory fb ss SystemInfo_zero = Inr si" by simp
  from interpretMemory_size [OF this] s show ?thesis
    by (simp add: SystemInfo_zero_def)
qed

end
